(* ===== verification/Prelude.thy ===== *)
theory Prelude
  imports "HOL-Library.Word" "HOL-Library.Sublist"
begin

text \<open>
  Shared ground of the development: the collections of facts the component proofs draw on, the
  machine types, and the sequencing combinators in which every fallible, effectful function of the
  driver is written.

  A Rust function \<open>async fn f(..) -> Result<A, E>\<close> that acts on the outside world is a function
  \<open>'w \<Rightarrow> ('e + 'a) \<times> 'w\<close>: \<open>Inl\<close> is \<open>Err\<close>, \<open>Inr\<close> is \<open>Ok\<close>, and the second component is
  the world afterwards, also on the error path (an early return does not undo earlier effects).
  \<^item> \<open>io_bind m f\<close> is \<open>let x = m.await?; f(x)\<close>;
  \<^item> \<open>io_map_err g m\<close> is \<open>m.await.map_err(g)\<close>;
  \<^item> \<open>io_ignore m\<close> is \<open>let _ = m.await;\<close>;
  \<^item> \<open>io_lift r\<close> is a pure \<open>Result\<close> used with \<open>?\<close>.
\<close>

named_theorems io_defs "definitions of the sequencing combinators"
named_theorems lit_simps "evaluation of string literals"
named_theorems frame_simps "what an operation leaves unchanged"

type_synonym byte = "8 word"
type_synonym bytes = "byte list"
type_synonym u64 = "64 word"
type_synonym u32 = "32 word"

type_synonym ('w, 'e, 'a) io = "'w \<Rightarrow> ('e + 'a) \<times> 'w"

definition io_ok :: "'a \<Rightarrow> ('w, 'e, 'a) io" where
  "io_ok x = (\<lambda>w. (Inr x, w))"

definition io_err :: "'e \<Rightarrow> ('w, 'e, 'a) io" where
  "io_err e = (\<lambda>w. (Inl e, w))"

definition io_bind :: "('w, 'e, 'a) io \<Rightarrow> ('a \<Rightarrow> ('w, 'e, 'b) io) \<Rightarrow> ('w, 'e, 'b) io" where
  "io_bind m f = (\<lambda>w. case m w of (Inl e, w') \<Rightarrow> (Inl e, w') | (Inr x, w') \<Rightarrow> f x w')"

definition io_map_err :: "('e \<Rightarrow> 'f) \<Rightarrow> ('w, 'e, 'a) io \<Rightarrow> ('w, 'f, 'a) io" where
  "io_map_err g m = (\<lambda>w. case m w of (Inl e, w') \<Rightarrow> (Inl (g e), w') | (Inr x, w') \<Rightarrow> (Inr x, w'))"

definition io_ignore :: "('w, 'f, 'a) io \<Rightarrow> ('w, 'e, unit) io" where
  "io_ignore m = (\<lambda>w. (Inr (), snd (m w)))"

definition io_lift :: "'e + 'a \<Rightarrow> ('w, 'e, 'a) io" where
  "io_lift r = (\<lambda>w. (r, w))"

declare io_ok_def [io_defs] io_err_def [io_defs] io_bind_def [io_defs]
  io_map_err_def [io_defs] io_ignore_def [io_defs] io_lift_def [io_defs]

text \<open>\<open>ok_or\<close> and \<open>ok_or_else\<close> of \<open>Option\<close>, \<open>map_err\<close> of a pure \<open>Result\<close>.\<close>

definition ok_or :: "'a option \<Rightarrow> 'e \<Rightarrow> 'e + 'a" where
  "ok_or x e = (case x of None \<Rightarrow> Inl e | Some a \<Rightarrow> Inr a)"

definition res_map_err :: "('e \<Rightarrow> 'f) \<Rightarrow> 'e + 'a \<Rightarrow> 'f + 'a" where
  "res_map_err g r = (case r of Inl e \<Rightarrow> Inl (g e) | Inr x \<Rightarrow> Inr x)"

lemma ok_or_simps [simp]:
  "ok_or None e = Inl e" "ok_or (Some a) e = Inr a"
  by (simp_all add: ok_or_def)

lemma ok_or_eq_Inr [simp]: "ok_or x e = Inr a \<longleftrightarrow> x = Some a"
  by (cases x) auto

lemma res_map_err_simps [simp]:
  "res_map_err g (Inl e) = Inl (g e)" "res_map_err g (Inr x) = Inr x"
  by (simp_all add: res_map_err_def)

lemma res_map_err_eq_Inr [simp]: "res_map_err g r = Inr x \<longleftrightarrow> r = Inr x"
  by (cases r) auto

lemma res_map_err_eq_Inl [simp]: "res_map_err g r = Inl f \<longleftrightarrow> (\<exists>e. r = Inl e \<and> f = g e)"
  by (cases r) auto

text \<open>
  The combinators compute on results that are known, and an outcome of a sequence is taken apart
  into the outcomes of its parts. These are the rules the component proofs use instead of
  unfolding.
\<close>

lemma io_ok_app [simp]: "io_ok x w = (Inr x, w)"
  by (simp add: io_ok_def)

lemma io_err_app [simp]: "io_err e w = (Inl e, w)"
  by (simp add: io_err_def)

lemma io_lift_app [simp]: "io_lift r w = (r, w)"
  by (simp add: io_lift_def)

lemma io_ignore_app [simp]: "io_ignore m w = (Inr (), snd (m w))"
  by (simp add: io_ignore_def)

lemma io_bind_Inl [simp]: "m w = (Inl e, w') \<Longrightarrow> io_bind m f w = (Inl e, w')"
  by (simp add: io_bind_def)

lemma io_bind_Inr [simp]: "m w = (Inr x, w') \<Longrightarrow> io_bind m f w = f x w'"
  by (simp add: io_bind_def)

lemma io_map_err_Inl [simp]: "m w = (Inl e, w') \<Longrightarrow> io_map_err g m w = (Inl (g e), w')"
  by (simp add: io_map_err_def)

lemma io_map_err_Inr [simp]: "m w = (Inr x, w') \<Longrightarrow> io_map_err g m w = (Inr x, w')"
  by (simp add: io_map_err_def)

lemma io_bind_eq_Inr:
  "io_bind m f w = (Inr y, w'') \<longleftrightarrow> (\<exists>x w'. m w = (Inr x, w') \<and> f x w' = (Inr y, w''))"
  by (cases "m w") (auto simp: io_bind_def split: sum.splits)

lemma io_bind_eq_Inl:
  "io_bind m f w = (Inl e, w'') \<longleftrightarrow>
     m w = (Inl e, w'') \<or> (\<exists>x w'. m w = (Inr x, w') \<and> f x w' = (Inl e, w''))"
  by (cases "m w") (auto simp: io_bind_def split: sum.splits)

lemma io_map_err_eq_Inr [simp]: "io_map_err g m w = (Inr x, w') \<longleftrightarrow> m w = (Inr x, w')"
  by (cases "m w") (auto simp: io_map_err_def split: sum.splits)

lemma io_map_err_eq_Inl:
  "io_map_err g m w = (Inl f, w') \<longleftrightarrow> (\<exists>e. m w = (Inl e, w') \<and> f = g e)"
  by (cases "m w") (auto simp: io_map_err_def split: sum.splits)

lemma snd_io_map_err [simp]: "snd (io_map_err g m w) = snd (m w)"
  by (cases "m w") (auto simp: io_map_err_def split: sum.splits)

lemma io_bind_assoc: "io_bind (io_bind m f) g = io_bind m (\<lambda>x. io_bind (f x) g)"
  by (rule ext) (simp add: io_bind_def split: prod.split sum.split)

lemma io_bind_ignore_Inl: "io_bind m (\<lambda>x. io_ignore (k x)) w = (Inl e, w') \<longleftrightarrow> m w = (Inl e, w')"
  by (auto simp: io_bind_def split: prod.split sum.split)

lemma io_bindE_Inr:
  assumes "io_bind m f w = (Inr y, w'')"
  obtains x w' where "m w = (Inr x, w')" and "f x w' = (Inr y, w'')"
  using assms by (auto simp: io_bind_eq_Inr)

lemma fst_eqE:
  assumes "fst p = x"
  obtains y where "p = (x, y)"
  using assms by (cases p) auto

text \<open>
  A property of worlds that each part of a sequence keeps is kept by the sequence, whatever the
  outcome: the rule behind every invariant and frame lemma below.
\<close>

definition keeps :: "('w \<Rightarrow> bool) \<Rightarrow> ('w, 'e, 'a) io \<Rightarrow> bool" where
  "keeps P m \<longleftrightarrow> (\<forall>w. P w \<longrightarrow> P (snd (m w)))"

lemma keepsI: "(\<And>w. P w \<Longrightarrow> P (snd (m w))) \<Longrightarrow> keeps P m"
  by (simp add: keeps_def)

lemma keepsD: "keeps P m \<Longrightarrow> P w \<Longrightarrow> P (snd (m w))"
  by (simp add: keeps_def)

lemma keepsD': "keeps P m \<Longrightarrow> m w = (r, w') \<Longrightarrow> P w \<Longrightarrow> P w'"
  by (metis keepsD snd_conv)

lemma keeps_ok [simp]: "keeps P (io_ok x)"
  by (simp add: keeps_def)

lemma keeps_err [simp]: "keeps P (io_err e)"
  by (simp add: keeps_def)

lemma keeps_lift [simp]: "keeps P (io_lift r)"
  by (simp add: keeps_def)

lemma keeps_pair [simp]: "keeps P (Pair r)"
  by (simp add: keeps_def)

lemma keeps_reader [simp]: "keeps P (\<lambda>w. (f w, w))"
  by (simp add: keeps_def)

lemma keeps_map_err [simp]: "keeps P (io_map_err g m) \<longleftrightarrow> keeps P m"
  by (simp add: keeps_def)

lemma keeps_ignore [simp]: "keeps P (io_ignore m) \<longleftrightarrow> keeps P m"
  by (simp add: keeps_def)

lemma keeps_bind [intro]:
  assumes "keeps P m" and "\<And>x. keeps P (f x)"
  shows "keeps P (io_bind m f)"
proof (rule keepsI)
  fix w assume "P w"
  with assms(1) have "P (snd (m w))" by (rule keepsD)
  then show "P (snd (io_bind m f w))"
    using assms(2) by (cases "m w") (auto simp: io_bind_def keeps_def split: sum.splits)
qed

text \<open>
  The same for a relation between the world before and after: any relation that is reflexive and
  transitive passes from the parts to the whole. The frame conditions of the components (``only this
  file changes'', ``no file changes'') are interpretations of this locale.
\<close>

definition stays :: "('w \<Rightarrow> 'w \<Rightarrow> bool) \<Rightarrow> ('w, 'e, 'a) io \<Rightarrow> bool" where
  "stays R m \<longleftrightarrow> (\<forall>w. R w (snd (m w)))"

lemma staysI: "(\<And>w. R w (snd (m w))) \<Longrightarrow> stays R m"
  by (simp add: stays_def)

lemma staysD: "stays R m \<Longrightarrow> R w (snd (m w))"
  by (simp add: stays_def)

lemma staysD': "stays R m \<Longrightarrow> m w = (r, w') \<Longrightarrow> R w w'"
  by (metis staysD snd_conv)

lemma stays_map_err [simp]: "stays R (io_map_err g m) \<longleftrightarrow> stays R m"
  by (simp add: stays_def)

lemma stays_ignore [simp]: "stays R (io_ignore m) \<longleftrightarrow> stays R m"
  by (simp add: stays_def)

lemma stays_mono: "stays R m \<Longrightarrow> (\<And>v w. R v w \<Longrightarrow> S v w) \<Longrightarrow> stays S m"
  by (simp add: stays_def)

locale frame_rel =
  fixes R :: "'w \<Rightarrow> 'w \<Rightarrow> bool"
  assumes R_refl: "R w w"
    and R_trans: "R u v \<Longrightarrow> R v w \<Longrightarrow> R u w"
begin

lemma ok: "stays R (io_ok x)"
  by (simp add: stays_def R_refl)

lemma err: "stays R (io_err e)"
  by (simp add: stays_def R_refl)

lemma lift: "stays R (io_lift r)"
  by (simp add: stays_def R_refl)

lemma pair: "stays R (Pair r)"
  by (simp add: stays_def R_refl)

lemma bind:
  assumes "stays R m" and "\<And>x. stays R (f x)"
  shows "stays R (io_bind m f)"
proof (rule staysI)
  fix w
  show "R w (snd (io_bind m f w))"
  proof (cases "m w")
    case (Pair r w')
    with assms(1) have "R w w'" by (metis staysD snd_conv)
    with assms(2) Pair show ?thesis
      by (cases r) (auto simp: io_bind_def stays_def intro: R_trans)
  qed
qed

lemmas combine = ok err lift pair bind

end

end
