(* ===== verification/Rust_Str.thy ===== *)
theory Rust_Str
  imports Prelude
begin

text \<open>
  Rust's \<open>str\<close> and \<open>String\<close>, as far as the driver uses them. A string is the list of its
  Unicode scalar values. Offsets into a string are byte offsets of its UTF-8 encoding, as in Rust:
  \<open>rfind\<close> returns one, and a slice \<open>s[n..]\<close>, \<open>s[..n]\<close> or \<open>truncate(n)\<close> at an offset that is
  not a character boundary panics. A function that can panic returns an option, \<open>None\<close> being the
  panic, so that the absence of panics is a statement to prove.
\<close>

type_synonym rchar = nat
type_synonym rstr = "rchar list"

abbreviation c_tab :: rchar where "c_tab \<equiv> 9"
abbreviation c_nl :: rchar where "c_nl \<equiv> 10"
abbreviation c_space :: rchar where "c_space \<equiv> 32"
abbreviation c_amp :: rchar where "c_amp \<equiv> 38"
abbreviation c_comma :: rchar where "c_comma \<equiv> 44"
abbreviation c_dash :: rchar where "c_dash \<equiv> 45"
abbreviation c_dot :: rchar where "c_dot \<equiv> 46"
abbreviation c_slash :: rchar where "c_slash \<equiv> 47"
abbreviation c_colon :: rchar where "c_colon \<equiv> 58"
abbreviation c_quest :: rchar where "c_quest \<equiv> 63"
abbreviation c_at :: rchar where "c_at \<equiv> 64"
abbreviation c_uscore :: rchar where "c_uscore \<equiv> 95"

section \<open>Operations\<close>

text \<open>A literal of the source, character by character.\<close>

definition str :: "string \<Rightarrow> rstr" where
  "str cs = map of_char cs"

text \<open>\<open>char::len_utf8\<close> and \<open>str::len\<close>.\<close>

definition utf8_len :: "rchar \<Rightarrow> nat" where
  "utf8_len c = (if c < 128 then 1 else if c < 2048 then 2 else if c < 65536 then 3 else 4)"

definition byte_len :: "rstr \<Rightarrow> nat" where
  "byte_len s = sum_list (map utf8_len s)"

text \<open>The two parts of a string at a byte offset; \<open>None\<close> when the offset is out of range or
  inside a character.\<close>

fun split_at_byte :: "nat \<Rightarrow> rstr \<Rightarrow> (rstr \<times> rstr) option" where
  "split_at_byte n [] = (if n = 0 then Some ([], []) else None)"
| "split_at_byte n (c # cs) =
     (if n = 0 then Some ([], c # cs)
      else if utf8_len c \<le> n
      then map_option (\<lambda>(a, b). (c # a, b)) (split_at_byte (n - utf8_len c) cs)
      else None)"

text \<open>\<open>s[n..]\<close> and \<open>s[..n]\<close>.\<close>

definition slice_from :: "nat \<Rightarrow> rstr \<Rightarrow> rstr option" where
  "slice_from n s = map_option snd (split_at_byte n s)"

definition slice_to :: "nat \<Rightarrow> rstr \<Rightarrow> rstr option" where
  "slice_to n s = map_option fst (split_at_byte n s)"

text \<open>\<open>str::rfind\<close> of one character: the byte offset of its last occurrence.\<close>

fun rfind :: "rchar \<Rightarrow> rstr \<Rightarrow> nat option" where
  "rfind c [] = None"
| "rfind c (x # xs) =
     (case rfind c xs of
        Some i \<Rightarrow> Some (utf8_len x + i)
      | None \<Rightarrow> if x = c then Some 0 else None)"

text \<open>\<open>str::split_once\<close>: around the first occurrence.\<close>

fun split_once :: "rchar \<Rightarrow> rstr \<Rightarrow> (rstr \<times> rstr) option" where
  "split_once c [] = None"
| "split_once c (x # xs) =
     (if x = c then Some ([], xs)
      else map_option (\<lambda>(a, b). (x # a, b)) (split_once c xs))"

text \<open>\<open>str::split\<close> on a set of characters: never empty.\<close>

fun split_on :: "(rchar \<Rightarrow> bool) \<Rightarrow> rstr \<Rightarrow> rstr list" where
  "split_on P [] = [[]]"
| "split_on P (c # cs) =
     (if P c then [] # split_on P cs
      else (case split_on P cs of [] \<Rightarrow> [[c]] | p # ps \<Rightarrow> (c # p) # ps))"

text \<open>\<open>slice::join\<close> with a separator.\<close>

fun join_with :: "rstr \<Rightarrow> rstr list \<Rightarrow> rstr" where
  "join_with sep [] = []"
| "join_with sep [x] = x"
| "join_with sep (x # y # ys) = x @ sep @ join_with sep (y # ys)"

text \<open>\<open>char::is_whitespace\<close>: the Unicode property White_Space.\<close>

definition is_whitespace :: "rchar \<Rightarrow> bool" where
  "is_whitespace c \<longleftrightarrow> (9 \<le> c \<and> c \<le> 13) \<or> c = 32 \<or> c = 133 \<or> c = 160 \<or> c = 5760 \<or>
     (8192 \<le> c \<and> c \<le> 8202) \<or> c = 8232 \<or> c = 8233 \<or> c = 8239 \<or> c = 8287 \<or> c = 12288"

definition trim :: "rstr \<Rightarrow> rstr" where
  "trim s = rev (dropWhile is_whitespace (rev (dropWhile is_whitespace s)))"

text \<open>ASCII case folding: \<open>to_ascii_lowercase\<close>, \<open>eq_ignore_ascii_case\<close>.\<close>

definition ascii_lower :: "rchar \<Rightarrow> rchar" where
  "ascii_lower c = (if 65 \<le> c \<and> c \<le> 90 then c + 32 else c)"

definition to_ascii_lowercase :: "rstr \<Rightarrow> rstr" where
  "to_ascii_lowercase s = map ascii_lower s"

definition eq_ignore_ascii_case :: "rstr \<Rightarrow> rstr \<Rightarrow> bool" where
  "eq_ignore_ascii_case a b \<longleftrightarrow> to_ascii_lowercase a = to_ascii_lowercase b"

definition is_ascii_alphanumeric :: "rchar \<Rightarrow> bool" where
  "is_ascii_alphanumeric c \<longleftrightarrow> (48 \<le> c \<and> c \<le> 57) \<or> (65 \<le> c \<and> c \<le> 90) \<or> (97 \<le> c \<and> c \<le> 122)"

text \<open>\<open>str::replace\<close> of one character by one character, \<open>starts_with\<close>, \<open>strip_prefix\<close>,
  \<open>contains\<close> of a character.\<close>

definition replace_char :: "rchar \<Rightarrow> rchar \<Rightarrow> rstr \<Rightarrow> rstr" where
  "replace_char c d s = map (\<lambda>x. if x = c then d else x) s"

definition starts_with :: "rstr \<Rightarrow> rstr \<Rightarrow> bool" where
  "starts_with p s \<longleftrightarrow> take (length p) s = p"

definition strip_prefix :: "rstr \<Rightarrow> rstr \<Rightarrow> rstr option" where
  "strip_prefix p s = (if starts_with p s then Some (drop (length p) s) else None)"

text \<open>\<open>String::truncate\<close>: nothing beyond the end, a panic inside a character.\<close>

definition truncate_str :: "nat \<Rightarrow> rstr \<Rightarrow> rstr option" where
  "truncate_str n s = (if n \<le> byte_len s then slice_to n s else Some s)"

section \<open>Literals\<close>

lemma str_Nil [lit_simps]: "str [] = []"
  by (simp add: str_def)

lemma str_Cons [lit_simps]: "str (c # cs) = of_char c # str cs"
  by (simp add: str_def)

section \<open>Byte offsets\<close>

lemma utf8_len_pos [simp]: "0 < utf8_len c"
  by (simp add: utf8_len_def)

lemma utf8_len_ascii [simp]: "c < 128 \<Longrightarrow> utf8_len c = 1"
  by (simp add: utf8_len_def)

lemma utf8_len_bounds: "1 \<le> utf8_len c \<and> utf8_len c \<le> 4"
  by (simp add: utf8_len_def)

lemma byte_len_simps [simp]:
  "byte_len [] = 0" "byte_len (c # s) = utf8_len c + byte_len s"
  "byte_len (s @ t) = byte_len s + byte_len t"
  by (simp_all add: byte_len_def)

lemma byte_len_ascii: "(\<And>c. c \<in> set s \<Longrightarrow> c < 128) \<Longrightarrow> byte_len s = length s"
  by (induction s) auto

lemma split_at_byte_app [simp]: "split_at_byte (byte_len a) (a @ b) = Some (a, b)"
  by (induction a) (cases b, auto)

lemma split_at_byte_SomeD: "split_at_byte n s = Some (a, b) \<Longrightarrow> s = a @ b \<and> n = byte_len a"
  by (induction n s arbitrary: a rule: split_at_byte.induct) (auto split: if_splits)

lemma slice_from_app [simp]: "slice_from (byte_len a) (a @ b) = Some b"
  by (simp add: slice_from_def)

lemma slice_to_app [simp]: "slice_to (byte_len a) (a @ b) = Some a"
  by (simp add: slice_to_def)

text \<open>An offset one past a known ASCII character is a boundary too.\<close>

lemma slice_from_Suc [simp]:
  assumes "c < 128"
  shows "slice_from (Suc (byte_len a)) (a @ c # b) = Some b"
proof -
  from assms have "byte_len (a @ [c]) = Suc (byte_len a)" by simp
  then show ?thesis using slice_from_app [of "a @ [c]" b] by (simp del: byte_len_simps)
qed

lemma rfind_None: "rfind c s = None \<longleftrightarrow> c \<notin> set s"
  by (induction s) (auto split: option.splits)

lemma rfind_absent [simp]: "c \<notin> set s \<Longrightarrow> rfind c s = None"
  by (simp add: rfind_None)

lemma rfind_last [simp]: "c \<notin> set b \<Longrightarrow> rfind c (a @ c # b) = Some (byte_len a)"
  by (induction a) auto

lemma rfind_Some:
  assumes "rfind c s = Some i"
  obtains a b where "s = a @ c # b" and "c \<notin> set b" and "i = byte_len a"
proof -
  from assms have "c \<in> set s" using rfind_None [of c s] by auto
  then obtain a b where s: "s = a @ c # b" "c \<notin> set b" by (metis split_list_last)
  with assms have "i = byte_len a" by simp
  with s that show ?thesis by blast
qed

section \<open>Splitting and joining\<close>

lemma split_once_None: "split_once c s = None \<longleftrightarrow> c \<notin> set s"
  by (induction s) auto

lemma split_once_absent [simp]: "c \<notin> set s \<Longrightarrow> split_once c s = None"
  by (simp add: split_once_None)

lemma split_once_first [simp]: "c \<notin> set a \<Longrightarrow> split_once c (a @ c # b) = Some (a, b)"
  by (induction a) auto

lemma split_once_Some: "split_once c s = Some (a, b) \<longleftrightarrow> s = a @ c # b \<and> c \<notin> set a"
proof
  show "split_once c s = Some (a, b) \<Longrightarrow> s = a @ c # b \<and> c \<notin> set a"
    by (induction s arbitrary: a) (auto split: if_splits)
qed auto

lemma split_on_nonempty [simp]: "split_on P s \<noteq> []"
  by (induction s) (auto split: list.splits)

lemma split_on_free: "\<forall>c \<in> set s. \<not> P c \<Longrightarrow> split_on P s = [s]"
  by (induction s) auto

lemma split_on_sep: "P c \<Longrightarrow> split_on P (a @ c # b) = split_on P a @ split_on P b"
proof (induction a)
  case Nil
  then show ?case by simp
next
  case (Cons x a)
  then show ?case by (cases "split_on P a") auto
qed

lemma split_on_pieces: "p \<in> set (split_on P s) \<Longrightarrow> \<forall>c \<in> set p. \<not> P c"
proof (induction s arbitrary: p)
  case (Cons x s)
  then show ?case by (cases "split_on P s") (auto split: if_splits, blast)
qed simp

lemma split_on_join:
  assumes "P c" and "ps \<noteq> []" and "\<forall>p \<in> set ps. \<forall>x \<in> set p. \<not> P x"
  shows "split_on P (join_with [c] ps) = ps"
  using assms(2,3)
proof (induction "[c]" ps rule: join_with.induct)
  case (2 x)
  then show ?case by (simp add: split_on_free)
next
  case (3 x y ys)
  then show ?case using assms(1) by (simp add: split_on_sep split_on_free)
qed simp

section \<open>Trimming and case folding\<close>

lemma set_trim: "set (trim s) \<subseteq> set s"
  by (auto simp: trim_def dest!: set_dropWhileD)

lemma dropWhile_rev_dropWhile:
  "dropWhile P (rev (dropWhile P (rev (dropWhile P s)))) = rev (dropWhile P (rev (dropWhile P s)))"
proof (cases "dropWhile P s")
  case (Cons x xs)
  then have "\<not> P x" by (simp add: dropWhile_eq_Cons_conv)
  then have "dropWhile P (rev xs @ [x]) = dropWhile P (rev xs) @ [x]"
    by (simp add: dropWhile_append3)
  with Cons \<open>\<not> P x\<close> show ?thesis by simp
next
  case Nil
  then show ?thesis by (simp only: dropWhile.simps rev.simps)
qed

lemma trim_idem [simp]: "trim (trim s) = trim s"
  by (simp add: trim_def dropWhile_rev_dropWhile dropWhile_idem)

lemma trim_plain:
  assumes "\<forall>c \<in> set s. \<not> is_whitespace c"
  shows "trim s = s"
proof -
  have "dropWhile is_whitespace t = t" if "\<forall>c \<in> set t. \<not> is_whitespace c" for t
    using that by (cases t) auto
  from this [of s] this [of "rev s"] assms show ?thesis by (simp only: trim_def set_rev rev_rev_ident)
qed

lemma ascii_lower_idem [simp]: "ascii_lower (ascii_lower c) = ascii_lower c"
  by (auto simp: ascii_lower_def)

lemma to_ascii_lowercase_idem [simp]:
  "to_ascii_lowercase (to_ascii_lowercase s) = to_ascii_lowercase s"
  by (simp add: to_ascii_lowercase_def)

lemma eq_ignore_ascii_case_refl [simp]: "eq_ignore_ascii_case s s"
  by (simp add: eq_ignore_ascii_case_def)

lemma length_replace_char [simp]: "length (replace_char c d s) = length s"
  by (simp add: replace_char_def)

lemma strip_prefix_app [simp]: "strip_prefix p (p @ s) = Some s"
  by (simp add: strip_prefix_def starts_with_def)

lemma starts_with_iff: "starts_with p s \<longleftrightarrow> (\<exists>t. s = p @ t)"
  by (auto simp: starts_with_def) (metis append_take_drop_id)

end
