(* ===== verification/Rust_Path.thy ===== *)
theory Rust_Path
  imports Rust_Str
begin

text \<open>
  \<open>std::path\<close> on Unix, as far as the driver uses it. A path is the string it was built from
  (\<open>PathBuf\<close>); \<open>path_join\<close>, \<open>path_parent\<close> and \<open>with_extension\<close> work on that string. What a
  path denotes is its \<^emph>\<open>location\<close>: the directory names from the root, after empty and \<open>.\<close>
  segments are dropped and \<open>..\<close> goes up. Several spellings have one location, and a segment
  \<open>..\<close> or an absolute right-hand side of a join leaves the directory on the left, which is what
  the containment lemmas here are about. Symbolic links are not modelled.
\<close>

type_synonym path = rstr
type_synonym loc = "rstr list"

abbreviation is_slash :: "rchar \<Rightarrow> bool" where
  "is_slash \<equiv> (\<lambda>c. c = c_slash)"

definition is_absolute :: "path \<Rightarrow> bool" where
  "is_absolute p \<longleftrightarrow> (case p of [] \<Rightarrow> False | c # _ \<Rightarrow> c = c_slash)"

text \<open>\<open>Path::join\<close>: an absolute right-hand side replaces the left one.\<close>

definition path_join :: "path \<Rightarrow> path \<Rightarrow> path" where
  "path_join d f =
     (if is_absolute f then f
      else if d = [] \<or> last d = c_slash then d @ f
      else d @ c_slash # f)"

text \<open>The reversed path without trailing separators and \<open>.\<close> components; the root stays.\<close>

fun strip_trail :: "rstr \<Rightarrow> rstr" where
  "strip_trail r =
     (case r of
        [] \<Rightarrow> []
      | c # r' \<Rightarrow>
          (if c = c_slash then (if r' = [] then [c_slash] else strip_trail r')
           else if c = c_dot then
             (case r' of [] \<Rightarrow> r | d # _ \<Rightarrow> if d = c_slash then strip_trail r' else r)
           else r))"

text \<open>\<open>Path::parent\<close>.\<close>

definition path_parent :: "path \<Rightarrow> path option" where
  "path_parent p =
     (let r = strip_trail (rev p)
      in if r = [] \<or> r = [c_slash] then None
         else Some (rev (strip_trail (dropWhile (\<lambda>c. c \<noteq> c_slash) r))))"

text \<open>\<open>Path::with_extension\<close>: the last component keeps its stem, which is the whole name when the
  only dot is the first character; a path without a file name is unchanged.\<close>

definition file_stem_of :: "rstr \<Rightarrow> rstr" where
  "file_stem_of name =
     (case rfind c_dot name of
        None \<Rightarrow> name
      | Some i \<Rightarrow> (case slice_to i name of Some (c # s) \<Rightarrow> c # s | _ \<Rightarrow> name))"

definition with_extension :: "path \<Rightarrow> rstr \<Rightarrow> path" where
  "with_extension p e =
     (let r = strip_trail (rev p);
          name = rev (takeWhile (\<lambda>c. c \<noteq> c_slash) r);
          dir = rev (dropWhile (\<lambda>c. c \<noteq> c_slash) r)
      in if name = [] \<or> name = [c_dot] \<or> name = [c_dot, c_dot] then p
         else dir @ file_stem_of name @ c_dot # e)"

section \<open>Locations\<close>

definition walk_seg :: "rstr \<Rightarrow> loc \<Rightarrow> loc" where
  "walk_seg seg l =
     (if seg = [] \<or> seg = [c_dot] then l
      else if seg = [c_dot, c_dot] then butlast l
      else l @ [seg])"

definition loc_of :: "loc \<Rightarrow> path \<Rightarrow> loc" where
  "loc_of cwd p = fold walk_seg (split_on is_slash p) (if is_absolute p then [] else cwd)"

text \<open>A file name proper: one segment that names an entry of its directory.\<close>

definition plain_name :: "rstr \<Rightarrow> bool" where
  "plain_name n \<longleftrightarrow> n \<noteq> [] \<and> c_slash \<notin> set n \<and> n \<noteq> [c_dot] \<and> n \<noteq> [c_dot, c_dot]"

lemma walk_plain [simp]: "plain_name n \<Longrightarrow> walk_seg n l = l @ [n]"
  by (simp add: walk_seg_def plain_name_def)

lemma split_plain [simp]: "plain_name n \<Longrightarrow> split_on is_slash n = [n]"
  by (rule split_on_free) (auto simp: plain_name_def)

lemma not_absolute_plain [simp]: "plain_name n \<Longrightarrow> \<not> is_absolute n"
  by (cases n) (auto simp: plain_name_def is_absolute_def)

lemma is_absolute_app [simp]: "d \<noteq> [] \<Longrightarrow> is_absolute (d @ f) = is_absolute d"
  by (cases d) (auto simp: is_absolute_def)

lemma is_absolute_join: "\<not> is_absolute f \<Longrightarrow> is_absolute (path_join d f) = is_absolute d"
  by (cases d) (auto simp: path_join_def is_absolute_def)

text \<open>Joining a relative path is walking on from where the left-hand side denotes.\<close>

lemma segs_join:
  assumes "\<not> is_absolute f"
  shows "fold walk_seg (split_on is_slash (path_join d f)) l =
         fold walk_seg (split_on is_slash f) (fold walk_seg (split_on is_slash d) l)"
proof (cases "d = [] \<or> last d = c_slash")
  case True
  show ?thesis
  proof (cases "d = []")
    case True
    with assms show ?thesis by (simp add: path_join_def walk_seg_def)
  next
    case False
    with True obtain d' where d: "d = d' @ [c_slash]"
      by (metis append_butlast_last_id)
    have "path_join d f = d' @ c_slash # f" using assms d by (simp add: path_join_def)
    moreover have "split_on is_slash d = split_on is_slash d' @ [[]]"
      unfolding d by (subst split_on_sep) simp_all
    ultimately show ?thesis by (simp add: split_on_sep walk_seg_def)
  qed
next
  case False
  with assms show ?thesis by (simp add: path_join_def split_on_sep)
qed

lemma loc_of_join:
  assumes "\<not> is_absolute f"
  shows "loc_of cwd (path_join d f) = fold walk_seg (split_on is_slash f) (loc_of cwd d)"
  using assms by (simp add: loc_of_def segs_join is_absolute_join)

lemma loc_of_join_plain [simp]:
  "plain_name n \<Longrightarrow> loc_of cwd (path_join d n) = loc_of cwd d @ [n]"
  by (simp add: loc_of_join)

lemma loc_of_absolute [simp]: "is_absolute f \<Longrightarrow> loc_of cwd (path_join d f) = loc_of cwd f"
  by (simp add: path_join_def)

text \<open>The name a path ends in, when its last segment is a file name proper.\<close>

lemma loc_of_last_seg:
  assumes "plain_name n"
  shows "loc_of cwd (d @ c_slash # n) =
         fold walk_seg (split_on is_slash d) (if is_absolute (d @ [c_slash]) then [] else cwd) @ [n]"
proof -
  have "is_absolute (d @ c_slash # n) = is_absolute (d @ [c_slash])"
    by (cases d) (auto simp: is_absolute_def)
  with assms show ?thesis by (simp add: loc_of_def split_on_sep)
qed

section \<open>Names with a known suffix\<close>

text \<open>A path that ends in a dotted suffix denotes a location whose last name ends in it.\<close>

lemma plain_name_suffix:
  assumes "c_slash \<notin> set a" and "c_slash \<notin> set s" and "s \<noteq> []" and "last s \<noteq> c_dot"
  shows "plain_name (a @ s)"
  using assms by (auto simp: plain_name_def append_eq_Cons_conv)

lemma last_segment:
  obtains "c_slash \<notin> set p" | d a where "p = d @ c_slash # a" and "c_slash \<notin> set a"
  by (metis split_list_last)

lemma loc_of_suffix:
  assumes "c_slash \<notin> set s" and "s \<noteq> []" and "last s \<noteq> c_dot"
  shows "\<exists>l a. loc_of cwd (p @ s) = l @ [a @ s]"
proof (cases rule: last_segment [of p])
  case 1
  from 1 assms have "plain_name (p @ s)" by (rule plain_name_suffix)
  then have "loc_of cwd (p @ s) = cwd @ [p @ s]" by (simp add: loc_of_def)
  then show ?thesis by blast
next
  case (2 d a)
  from 2(2) assms have n: "plain_name (a @ s)" by (rule plain_name_suffix)
  from 2(1) have "p @ s = d @ c_slash # (a @ s)" by simp
  with loc_of_last_seg [OF n, of cwd d] show ?thesis by auto
qed

lemma strip_trail_keep: "c \<noteq> c_slash \<Longrightarrow> c \<noteq> c_dot \<Longrightarrow> strip_trail (c # r) = c # r"
  by simp

declare strip_trail.simps [simp del]

text \<open>Trailing separators and \<open>.\<close> components do not matter for what a path denotes, so the parent of an
  entry of a directory denotes that directory.\<close>

lemma loc_of_slash: "p \<noteq> [] \<Longrightarrow> loc_of c (p @ [c_slash]) = loc_of c p"
  by (simp add: loc_of_def split_on_sep walk_seg_def)

lemma loc_of_slash_dot: "loc_of c (p @ [c_slash, c_dot]) = loc_of c (p @ [c_slash])"
proof -
  have "is_absolute (p @ [c_slash, c_dot]) = is_absolute (p @ [c_slash])"
    by (cases p) (simp_all add: is_absolute_def)
  then show ?thesis
    by (simp add: loc_of_def split_on_sep walk_seg_def)
qed

lemma loc_of_strip_trail: "loc_of c (rev (strip_trail r)) = loc_of c (rev r)"
proof (induction r rule: strip_trail.induct)
  case (1 r)
  then show ?case
    by (subst strip_trail.simps) (auto split: list.split simp: loc_of_slash loc_of_slash_dot)
qed

lemma path_parent_join:
  assumes "plain_name n"
  obtains q where "path_parent (path_join d n) = Some q" and "\<And>c. loc_of c q = loc_of c d"
proof -
  obtain pre where pre: "path_join d n = pre @ n" "pre = [] \<or> last pre = c_slash" "\<And>c. loc_of c pre = loc_of c d"
  proof (cases "d = [] \<or> last d = c_slash")
    case True
    with assms show thesis by (intro that [of d]) (simp_all add: path_join_def)
  next
    case False
    with assms show thesis by (intro that [of "d @ [c_slash]"]) (simp_all add: path_join_def loc_of_slash)
  qed
  from assms obtain x m where n: "n = m @ [x]" "x \<noteq> c_slash" "c_slash \<notin> set m"
    by (cases n rule: rev_cases) (auto simp: plain_name_def)
  have st: "strip_trail (rev (pre @ n)) = rev (pre @ n)"
    using n assms by (subst strip_trail.simps) (cases m rule: rev_cases, auto simp: plain_name_def split: list.split)
  have dw: "dropWhile (\<lambda>c. c \<noteq> c_slash) (rev (pre @ n)) = rev pre"
    using assms pre(2) by (cases pre rule: rev_cases) (auto simp: plain_name_def dropWhile_append)
  have "path_parent (pre @ n) = Some (rev (strip_trail (rev pre)))"
    unfolding path_parent_def Let_def st dw using n by (cases pre rule: rev_cases) auto
  then show thesis
    using pre(1,3) loc_of_strip_trail [of _ "rev pre"] by (intro that [of "rev (strip_trail (rev pre))"]) simp_all
qed

end
