(* ===== verification/World.thy ===== *)
theory World
  imports Rust_Path "HOL-Library.AList"
begin

text \<open>
  The outside world of the driver and the file-system calls it makes (\<open>tokio::fs\<close>, \<open>std::fs\<close>,
  \<open>Path::exists\<close>). The world holds the file system of the host, the working directory, a clock and
  \<open>ext\<close>, the state of everything else (the registry server, running daemons, the mount table),
  about which nothing is assumed.

  A call can fail for reasons outside the model (permissions, a full disk, a busy mount point).
  \<open>faults\<close> says which: the call number \<open>tick\<close> fails with the error given there, and for a call
  that works in several steps the number says how far it got: bytes written by \<open>write\<close>,
  directories made by \<open>create_dir_all\<close>. Theorems are over every fault pattern.
\<close>

datatype io_error = NotFound | AlreadyExists | NotADirectory | IsADirectory | DirectoryNotEmpty
  | InvalidData | OsError nat

datatype node = Dir | File bytes | Sock

datatype fault = Fault io_error "nat option"

type_synonym fsys = "(loc \<times> node) list"

record 'x world =
  fs :: fsys
  cwd :: loc
  faults :: "nat \<Rightarrow> fault option"
  tick :: nat
  clock :: int
  ext :: 'x

section \<open>The store of files\<close>

definition fs_get :: "fsys \<Rightarrow> loc \<Rightarrow> node option" where
  "fs_get f l = (if l = [] then Some Dir else map_of f l)"

definition fs_put :: "loc \<Rightarrow> node \<Rightarrow> fsys \<Rightarrow> fsys" where
  "fs_put l n f = AList.update l n f"

definition fs_del :: "loc \<Rightarrow> fsys \<Rightarrow> fsys" where
  "fs_del l f = AList.delete l f"

definition fs_has_child :: "fsys \<Rightarrow> loc \<Rightarrow> bool" where
  "fs_has_child f l = list_ex (\<lambda>(k, _). k \<noteq> [] \<and> butlast k = l) f"

text \<open>What the calls below rely on: a store that behaves as a map from locations to nodes, with
  the root always a directory.\<close>

locale file_store =
  fixes get :: "'s \<Rightarrow> loc \<Rightarrow> node option"
    and put :: "loc \<Rightarrow> node \<Rightarrow> 's \<Rightarrow> 's"
    and del :: "loc \<Rightarrow> 's \<Rightarrow> 's"
  assumes get_root: "get s [] = Some Dir"
    and get_put: "l \<noteq> [] \<Longrightarrow> get (put l n s) k = (if k = l then Some n else get s k)"
    and get_del: "l \<noteq> [] \<Longrightarrow> get (del l s) k = (if k = l then None else get s k)"
begin

lemma put_same: "l \<noteq> [] \<Longrightarrow> get (put l n s) l = Some n"
  by (simp add: get_put)

lemma del_same: "l \<noteq> [] \<Longrightarrow> get (del l s) l = None"
  by (simp add: get_del)

lemma put_keeps: "l \<noteq> [] \<Longrightarrow> get s k \<noteq> None \<Longrightarrow> get (put l n s) k \<noteq> None"
  by (simp add: get_put)

lemma move_get:
  "a \<noteq> [] \<Longrightarrow> b \<noteq> [] \<Longrightarrow>
   get (put b n (del a s)) k = (if k = b then Some n else if k = a then None else get s k)"
  by (simp add: get_put get_del)

end

interpretation fstore: file_store fs_get fs_put fs_del
proof unfold_locales
  fix f :: fsys and l k :: loc and n :: node
  show "fs_get f [] = Some Dir" by (simp add: fs_get_def)
  show "l \<noteq> [] \<Longrightarrow> fs_get (fs_put l n f) k = (if k = l then Some n else fs_get f k)"
    by (auto simp: fs_get_def fs_put_def update_conv')
  show "l \<noteq> [] \<Longrightarrow> fs_get (fs_del l f) k = (if k = l then None else fs_get f k)"
    by (auto simp: fs_get_def fs_del_def delete_conv')
qed

lemmas fs_get_simps [simp] = fstore.get_root fstore.get_put fstore.get_del

section \<open>Calls\<close>

text \<open>One call: it fails with the fault of this tick, leaving what \<open>part\<close> says, or runs.\<close>

definition syscall ::
  "(nat option \<Rightarrow> fsys \<Rightarrow> fsys) \<Rightarrow> (fsys \<Rightarrow> io_error + 'a \<times> fsys) \<Rightarrow> ('x world, io_error, 'a) io" where
  "syscall part run w =
     (let w1 = w\<lparr>tick := Suc (tick w)\<rparr>
      in case faults w (tick w) of
           Some (Fault e k) \<Rightarrow> (Inl e, w1\<lparr>fs := part k (fs w)\<rparr>)
         | None \<Rightarrow>
             (case run (fs w) of
                Inl e \<Rightarrow> (Inl e, w1)
              | Inr (a, f) \<Rightarrow> (Inr a, w1\<lparr>fs := f\<rparr>)))"

abbreviation atomic :: "nat option \<Rightarrow> fsys \<Rightarrow> fsys" where
  "atomic \<equiv> (\<lambda>_ f. f)"

text \<open>\<open>create_dir_all\<close>: every missing directory on the way, from the root down.\<close>

definition ancestors :: "loc \<Rightarrow> loc list" where
  "ancestors l = map (\<lambda>n. take n l) [1..<Suc (length l)]"

fun mkdirs :: "loc list \<Rightarrow> fsys \<Rightarrow> io_error + fsys" where
  "mkdirs [] f = Inr f"
| "mkdirs (l # ls) f =
     (case fs_get f l of
        None \<Rightarrow> mkdirs ls (fs_put l Dir f)
      | Some Dir \<Rightarrow> mkdirs ls f
      | Some _ \<Rightarrow> Inl (if ls = [] then AlreadyExists else NotADirectory))"

definition mkdirs_part :: "loc \<Rightarrow> nat option \<Rightarrow> fsys \<Rightarrow> fsys" where
  "mkdirs_part l k f =
     (case k of
        None \<Rightarrow> f
      | Some n \<Rightarrow> (case mkdirs (take n (ancestors l)) f of Inl _ \<Rightarrow> f | Inr f' \<Rightarrow> f'))"

definition create_dir_all :: "path \<Rightarrow> ('x world, io_error, unit) io" where
  "create_dir_all p w =
     (if p = [] then (Inr (), w)
      else let l = loc_of (cwd w) p
           in syscall (mkdirs_part l)
                (\<lambda>f. case mkdirs (ancestors l) f of Inl e \<Rightarrow> Inl e | Inr f' \<Rightarrow> Inr ((), f')) w)"

text \<open>\<open>read\<close>, \<open>write\<close>, \<open>File::create\<close> and \<open>write_all\<close> on the file just created.\<close>

definition fs_read :: "loc \<Rightarrow> fsys \<Rightarrow> io_error + bytes" where
  "fs_read l f =
     (case fs_get f l of
        None \<Rightarrow> Inl NotFound
      | Some Dir \<Rightarrow> Inl IsADirectory
      | Some Sock \<Rightarrow> Inl (OsError 6)
      | Some (File b) \<Rightarrow> Inr b)"

definition read_file :: "path \<Rightarrow> ('x world, io_error, bytes) io" where
  "read_file p w =
     syscall atomic
       (\<lambda>f. case fs_read (loc_of (cwd w) p) f of Inl e \<Rightarrow> Inl e | Inr b \<Rightarrow> Inr (b, f)) w"

definition fs_write :: "loc \<Rightarrow> bytes \<Rightarrow> fsys \<Rightarrow> io_error + fsys" where
  "fs_write l b f =
     (if l = [] then Inl IsADirectory
      else case fs_get f (butlast l) of
             None \<Rightarrow> Inl NotFound
           | Some Dir \<Rightarrow>
               (case fs_get f l of
                  Some Dir \<Rightarrow> Inl IsADirectory
                | Some Sock \<Rightarrow> Inl (OsError 6)
                | _ \<Rightarrow> Inr (fs_put l (File b) f))
           | Some _ \<Rightarrow> Inl NotADirectory)"

definition write_part :: "loc \<Rightarrow> bytes \<Rightarrow> nat option \<Rightarrow> fsys \<Rightarrow> fsys" where
  "write_part l b k f =
     (case k of
        None \<Rightarrow> f
      | Some n \<Rightarrow> (case fs_write l (take n b) f of Inl _ \<Rightarrow> f | Inr f' \<Rightarrow> f'))"

definition write_file :: "path \<Rightarrow> bytes \<Rightarrow> ('x world, io_error, unit) io" where
  "write_file p b w =
     (let l = loc_of (cwd w) p
      in syscall (write_part l b)
           (\<lambda>f. case fs_write l b f of Inl e \<Rightarrow> Inl e | Inr f' \<Rightarrow> Inr ((), f')) w)"

definition create_file :: "path \<Rightarrow> ('x world, io_error, unit) io" where
  "create_file p = write_file p []"

definition fs_append :: "loc \<Rightarrow> bytes \<Rightarrow> fsys \<Rightarrow> io_error + fsys" where
  "fs_append l b f =
     (case fs_get f l of
        Some (File c) \<Rightarrow> Inr (fs_put l (File (c @ b)) f)
      | _ \<Rightarrow> Inl (OsError 9))"

definition append_part :: "loc \<Rightarrow> bytes \<Rightarrow> nat option \<Rightarrow> fsys \<Rightarrow> fsys" where
  "append_part l b k f =
     (case k of
        None \<Rightarrow> f
      | Some n \<Rightarrow> (case fs_append l (take n b) f of Inl _ \<Rightarrow> f | Inr f' \<Rightarrow> f'))"

definition append_file :: "path \<Rightarrow> bytes \<Rightarrow> ('x world, io_error, unit) io" where
  "append_file p b w =
     (let l = loc_of (cwd w) p
      in syscall (append_part l b)
           (\<lambda>f. case fs_append l b f of Inl e \<Rightarrow> Inl e | Inr f' \<Rightarrow> Inr ((), f')) w)"

definition flush_file :: "path \<Rightarrow> ('x world, io_error, unit) io" where
  "flush_file p = syscall atomic (\<lambda>f. Inr ((), f))"

text \<open>\<open>rename\<close>, for the regular files the driver renames (a directory as the source is refused).\<close>

definition fs_rename :: "loc \<Rightarrow> loc \<Rightarrow> fsys \<Rightarrow> io_error + fsys" where
  "fs_rename a b f =
     (case fs_get f a of
        None \<Rightarrow> Inl NotFound
      | Some Dir \<Rightarrow> Inl IsADirectory
      | Some n \<Rightarrow>
          (if a = b then Inr f
           else if b = [] \<or> fs_get f b = Some Dir then Inl IsADirectory
           else case fs_get f (butlast b) of
                  None \<Rightarrow> Inl NotFound
                | Some Dir \<Rightarrow> Inr (fs_put b n (fs_del a f))
                | Some _ \<Rightarrow> Inl NotADirectory))"

definition rename_file :: "path \<Rightarrow> path \<Rightarrow> ('x world, io_error, unit) io" where
  "rename_file a b w =
     syscall atomic
       (\<lambda>f. case fs_rename (loc_of (cwd w) a) (loc_of (cwd w) b) f of
              Inl e \<Rightarrow> Inl e | Inr f' \<Rightarrow> Inr ((), f')) w"

definition fs_remove_file :: "loc \<Rightarrow> fsys \<Rightarrow> io_error + fsys" where
  "fs_remove_file l f =
     (case fs_get f l of
        None \<Rightarrow> Inl NotFound
      | Some Dir \<Rightarrow> Inl IsADirectory
      | Some _ \<Rightarrow> Inr (fs_del l f))"

definition remove_file :: "path \<Rightarrow> ('x world, io_error, unit) io" where
  "remove_file p w =
     syscall atomic
       (\<lambda>f. case fs_remove_file (loc_of (cwd w) p) f of Inl e \<Rightarrow> Inl e | Inr f' \<Rightarrow> Inr ((), f')) w"

definition fs_remove_dir :: "loc \<Rightarrow> fsys \<Rightarrow> io_error + fsys" where
  "fs_remove_dir l f =
     (case fs_get f l of
        None \<Rightarrow> Inl NotFound
      | Some Dir \<Rightarrow>
          (if l = [] then Inl (OsError 16)
           else if fs_has_child f l then Inl DirectoryNotEmpty
           else Inr (fs_del l f))
      | Some _ \<Rightarrow> Inl NotADirectory)"

definition remove_dir :: "path \<Rightarrow> ('x world, io_error, unit) io" where
  "remove_dir p w =
     syscall atomic
       (\<lambda>f. case fs_remove_dir (loc_of (cwd w) p) f of Inl e \<Rightarrow> Inl e | Inr f' \<Rightarrow> Inr ((), f')) w"

text \<open>\<open>metadata\<close> and the existence tests built on it: an error counts as absence.\<close>

definition metadata :: "path \<Rightarrow> ('x world, io_error, unit) io" where
  "metadata p w =
     syscall atomic
       (\<lambda>f. case fs_get f (loc_of (cwd w) p) of None \<Rightarrow> Inl NotFound | Some _ \<Rightarrow> Inr ((), f)) w"

definition path_exists :: "path \<Rightarrow> ('x world, 'e, bool) io" where
  "path_exists p w =
     (case metadata p w of (Inl _, w') \<Rightarrow> (Inr False, w') | (Inr _, w') \<Rightarrow> (Inr True, w'))"

lemmas call_defs = create_dir_all_def read_file_def write_file_def create_file_def append_file_def
  flush_file_def rename_file_def remove_file_def remove_dir_def metadata_def path_exists_def

section \<open>What a call leaves unchanged\<close>

lemma syscall_frame [frame_simps]:
  "ext (snd (syscall part run w)) = ext w"
  "cwd (snd (syscall part run w)) = cwd w"
  "faults (snd (syscall part run w)) = faults w"
  "clock (snd (syscall part run w)) = clock w"
  by (simp_all add: syscall_def Let_def split: option.splits fault.splits sum.splits prod.splits)

lemma path_exists_snd: "snd (path_exists p w) = snd (metadata p w)"
  by (auto simp: path_exists_def split: prod.splits sum.splits)

lemma ext_calls [frame_simps]:
  "ext (snd (create_dir_all p w)) = ext w" "ext (snd (read_file p w)) = ext w"
  "ext (snd (write_file p b w)) = ext w" "ext (snd (append_file p b w)) = ext w"
  "ext (snd (flush_file p w)) = ext w" "ext (snd (rename_file p q w)) = ext w"
  "ext (snd (remove_file p w)) = ext w" "ext (snd (remove_dir p w)) = ext w"
  "ext (snd (metadata p w)) = ext w"
  by (simp_all add: call_defs Let_def frame_simps)

lemma cwd_calls [frame_simps]:
  "cwd (snd (create_dir_all p w)) = cwd w" "cwd (snd (read_file p w)) = cwd w"
  "cwd (snd (write_file p b w)) = cwd w" "cwd (snd (append_file p b w)) = cwd w"
  "cwd (snd (flush_file p w)) = cwd w" "cwd (snd (rename_file p q w)) = cwd w"
  "cwd (snd (remove_file p w)) = cwd w" "cwd (snd (remove_dir p w)) = cwd w"
  "cwd (snd (metadata p w)) = cwd w"
  by (simp_all add: call_defs Let_def frame_simps)

lemma faults_calls [frame_simps]:
  "faults (snd (create_dir_all p w)) = faults w" "faults (snd (read_file p w)) = faults w"
  "faults (snd (write_file p b w)) = faults w" "faults (snd (append_file p b w)) = faults w"
  "faults (snd (flush_file p w)) = faults w" "faults (snd (rename_file p q w)) = faults w"
  "faults (snd (remove_file p w)) = faults w" "faults (snd (remove_dir p w)) = faults w"
  "faults (snd (metadata p w)) = faults w"
  by (simp_all add: call_defs Let_def frame_simps)

lemma create_file_frame [frame_simps]:
  "ext (snd (create_file p w)) = ext w" "cwd (snd (create_file p w)) = cwd w"
  "faults (snd (create_file p w)) = faults w"
  by (simp_all add: create_file_def frame_simps)

lemma path_exists_frame [frame_simps]:
  "ext (snd (path_exists p w)) = ext w" "cwd (snd (path_exists p w)) = cwd w"
  "faults (snd (path_exists p w)) = faults w"
  by (simp_all add: path_exists_snd frame_simps)

section \<open>What a call does to the file system\<close>

lemma syscall_get:
  assumes "\<And>k. fs_get (part k (fs w)) l = fs_get (fs w) l"
    and "\<And>a f. run (fs w) = Inr (a, f) \<Longrightarrow> fs_get f l = fs_get (fs w) l"
  shows "fs_get (fs (snd (syscall part run w))) l = fs_get (fs w) l"
  using assms
  by (simp add: syscall_def Let_def split: option.splits fault.splits sum.splits prod.splits)

lemma syscall_Inr:
  "syscall part run w = (Inr a, w') \<longleftrightarrow>
     (\<exists>f. faults w (tick w) = None \<and> run (fs w) = Inr (a, f) \<and> w' = w\<lparr>tick := Suc (tick w), fs := f\<rparr>)"
  by (auto simp: syscall_def Let_def split: option.splits fault.splits sum.splits prod.splits)

lemma mkdirs_get:
  "mkdirs ls f = Inr f' \<Longrightarrow> fs_get f l \<noteq> None \<or> l \<notin> set ls \<Longrightarrow> fs_get f' l = fs_get f l"
proof (induction ls arbitrary: f)
  case (Cons k ls)
  show ?case
  proof (cases "fs_get f k")
    case None
    then have "k \<noteq> []" by auto
    with None Cons show ?thesis by (auto split: if_splits)
  next
    case (Some n)
    with Cons show ?thesis by (cases n) auto
  qed
qed simp

lemma mkdirs_Dir:
  "mkdirs ls f = Inr f' \<Longrightarrow> l \<in> set ls \<Longrightarrow> fs_get f' l = Some Dir"
proof (induction ls arbitrary: f)
  case (Cons k ls)
  show ?case
  proof (cases "fs_get f k")
    case None
    then have "k \<noteq> []" by auto
    with None Cons show ?thesis by (cases "l = k") (auto simp: mkdirs_get)
  next
    case (Some n)
    with Cons show ?thesis by (cases n; cases "l = k") (auto simp: mkdirs_get)
  qed
qed simp

lemma ancestors_self: "l \<noteq> [] \<Longrightarrow> l \<in> set (ancestors l)"
  by (force simp: ancestors_def Suc_le_eq intro!: image_eqI [where x = "length l"])

lemma ancestors_prefix: "k \<in> set (ancestors l) \<Longrightarrow> prefix k l \<and> k \<noteq> []"
  by (cases l) (auto simp: ancestors_def take_is_prefix)

lemma create_dir_all_get:
  assumes "fs_get (fs w) l \<noteq> None \<or> \<not> prefix l (loc_of (cwd w) p)"
  shows "fs_get (fs (snd (create_dir_all p w))) l = fs_get (fs w) l"
proof -
  let ?a = "ancestors (loc_of (cwd w) p)"
  have "fs_get (fs w) l \<noteq> None \<or> l \<notin> set (take n ?a)" for n
    using assms by (meson ancestors_prefix in_set_takeD)
  then have part: "fs_get f' l = fs_get (fs w) l" if "mkdirs (take n ?a) (fs w) = Inr f'" for n f'
    using mkdirs_get [OF that] by simp
  have all: "fs_get f' l = fs_get (fs w) l" if "mkdirs ?a (fs w) = Inr f'" for f'
    using part [of "length ?a" f'] that by simp
  have "fs_get (mkdirs_part (loc_of (cwd w) p) k (fs w)) l = fs_get (fs w) l" for k
    unfolding mkdirs_part_def by (simp split: option.split sum.split) (metis part)
  with all show ?thesis
    by (auto simp: create_dir_all_def Let_def split: sum.splits intro!: syscall_get)
qed

lemma mkdirs_file:
  "mkdirs ls f = Inr f' \<Longrightarrow> fs_get f' l = Some (File b) \<Longrightarrow> fs_get f l = Some (File b)"
  by (metis mkdirs_Dir mkdirs_get node.distinct(1) option.inject)

lemma create_dir_all_file:
  assumes "fs_get (fs (snd (create_dir_all p w))) l = Some (File b)"
  shows "fs_get (fs w) l = Some (File b)"
  using assms
  by (auto simp: create_dir_all_def Let_def syscall_def mkdirs_part_def
    split: if_splits option.splits fault.splits sum.splits prod.splits dest: mkdirs_file)

lemma create_dir_all_file_iff [simp]:
  "fs_get (fs (snd (create_dir_all p w))) l = Some (File b) \<longleftrightarrow> fs_get (fs w) l = Some (File b)"
  by (metis create_dir_all_file create_dir_all_get option.discI)

lemma create_dir_all_Inr:
  assumes "create_dir_all p w = (Inr u, w')" and "p \<noteq> []"
  shows "fs_get (fs w') (loc_of (cwd w) p) = Some Dir"
proof (cases "loc_of (cwd w) p = []")
  case False
  with assms show ?thesis
    by (auto simp: create_dir_all_def Let_def syscall_Inr split: sum.splits
      intro!: mkdirs_Dir ancestors_self)
qed simp

lemma read_file_fs [frame_simps]: "fs (snd (read_file p w)) = fs w"
  by (simp add: read_file_def syscall_def Let_def split: option.splits fault.splits sum.splits)

lemma read_file_Inr:
  "read_file p w = (Inr b, w') \<Longrightarrow> fs_get (fs w) (loc_of (cwd w) p) = Some (File b)"
  by (auto simp: read_file_def syscall_Inr fs_read_def split: sum.splits option.splits node.splits)

lemma metadata_fs [frame_simps]: "fs (snd (metadata p w)) = fs w"
  by (simp add: metadata_def syscall_def Let_def split: option.splits fault.splits)

lemma path_exists_fs [frame_simps]: "fs (snd (path_exists p w)) = fs w"
  by (simp add: path_exists_snd frame_simps)

lemma path_exists_True:
  "path_exists p w = (Inr True, w') \<Longrightarrow> fs_get (fs w) (loc_of (cwd w) p) \<noteq> None"
  by (auto simp: path_exists_def metadata_def syscall_Inr split: prod.splits sum.splits option.splits)

lemma path_exists_not_Inl [simp]: "path_exists p w \<noteq> (Inl e, w')"
  by (auto simp: path_exists_def split: prod.splits sum.splits)

lemma flush_file_fs [frame_simps]: "fs (snd (flush_file p w)) = fs w"
  by (simp add: flush_file_def syscall_def Let_def split: option.splits fault.splits)

lemma fs_write_get: "fs_write l b f = Inr f' \<Longrightarrow> fs_get f' k = (if k = l then Some (File b) else fs_get f k)"
  by (auto simp: fs_write_def split: if_splits option.splits node.splits)

lemma write_file_get:
  "l \<noteq> loc_of (cwd w) p \<Longrightarrow> fs_get (fs (snd (write_file p b w))) l = fs_get (fs w) l"
  by (auto simp: write_file_def Let_def write_part_def fs_write_get split: option.splits sum.splits
    intro!: syscall_get)

lemma write_file_Inr:
  "write_file p b w = (Inr u, w') \<Longrightarrow>
   fs_get (fs w') l = (if l = loc_of (cwd w) p then Some (File b) else fs_get (fs w) l)"
  by (auto simp: write_file_def Let_def syscall_Inr fs_write_get split: sum.splits)

lemma fs_append_get:
  "fs_append l b f = Inr f' \<Longrightarrow>
   (\<exists>c. fs_get f l = Some (File c) \<and> (\<forall>k. fs_get f' k = (if k = l then Some (File (c @ b)) else fs_get f k)))"
  by (cases "l = []") (auto simp: fs_append_def split: option.splits node.splits)

lemma append_file_get:
  "l \<noteq> loc_of (cwd w) p \<Longrightarrow> fs_get (fs (snd (append_file p b w))) l = fs_get (fs w) l"
  by (auto simp: append_file_def Let_def append_part_def split: option.splits sum.splits
    intro!: syscall_get dest!: fs_append_get)

lemma append_file_Inr:
  "append_file p b w = (Inr u, w') \<Longrightarrow>
   (\<exists>c. fs_get (fs w) (loc_of (cwd w) p) = Some (File c) \<and>
        fs_get (fs w') (loc_of (cwd w) p) = Some (File (c @ b)))"
  by (auto simp: append_file_def Let_def syscall_Inr split: sum.splits dest!: fs_append_get)

lemma fs_rename_get:
  assumes "fs_rename a b f = Inr f'"
  shows "fs_get f' k = (if k = b then fs_get f a else if k = a then None else fs_get f k)"
proof -
  from assms obtain n where n: "fs_get f a = Some n" "n \<noteq> Dir"
    by (auto simp: fs_rename_def split: option.splits node.splits)
  then have "a \<noteq> []" by auto
  with n assms show ?thesis
    by (auto simp: fs_rename_def split: if_splits option.splits node.splits)
qed

lemma rename_file_get:
  "l \<noteq> loc_of (cwd w) a \<Longrightarrow> l \<noteq> loc_of (cwd w) b \<Longrightarrow>
   fs_get (fs (snd (rename_file a b w))) l = fs_get (fs w) l"
  by (auto simp: rename_file_def fs_rename_get split: sum.splits intro!: syscall_get)

lemma rename_file_Inr:
  "rename_file a b w = (Inr u, w') \<Longrightarrow>
   fs_get (fs w') k =
     (if k = loc_of (cwd w) b then fs_get (fs w) (loc_of (cwd w) a)
      else if k = loc_of (cwd w) a then None else fs_get (fs w) k)"
  by (auto simp: rename_file_def syscall_Inr fs_rename_get split: sum.splits)

lemma rename_file_src:
  "rename_file a b w = (Inr u, w') \<Longrightarrow> fs_get (fs w) (loc_of (cwd w) a) \<noteq> None"
  by (auto simp: rename_file_def syscall_Inr fs_rename_def split: sum.splits option.splits)

lemma rename_file_Inl: "rename_file a b w = (Inl e, w') \<Longrightarrow> fs w' = fs w"
  by (auto simp: rename_file_def syscall_def Let_def split: option.splits fault.splits sum.splits)

lemma fs_remove_file_get:
  "fs_remove_file l f = Inr f' \<Longrightarrow> fs_get f' k = (if k = l then None else fs_get f k)"
  by (cases "l = []") (auto simp: fs_remove_file_def split: option.splits node.splits)

lemma remove_file_get:
  "l \<noteq> loc_of (cwd w) p \<Longrightarrow> fs_get (fs (snd (remove_file p w))) l = fs_get (fs w) l"
  by (auto simp: remove_file_def fs_remove_file_get split: sum.splits intro!: syscall_get)

lemma remove_file_Inr:
  "remove_file p w = (Inr u, w') \<Longrightarrow> fs_get (fs w') (loc_of (cwd w) p) = None"
  by (auto simp: remove_file_def syscall_Inr fs_remove_file_get split: sum.splits)

lemma fs_remove_dir_get:
  "fs_remove_dir l f = Inr f' \<Longrightarrow>
   fs_get f l = Some Dir \<and> fs_get f' k = (if k = l then None else fs_get f k)"
  by (cases "l = []") (auto simp: fs_remove_dir_def split: option.splits node.splits if_splits)

lemma remove_dir_get:
  "l \<noteq> loc_of (cwd w) p \<Longrightarrow> fs_get (fs (snd (remove_dir p w))) l = fs_get (fs w) l"
  by (auto simp: remove_dir_def fs_remove_dir_get split: sum.splits intro!: syscall_get)

lemma remove_dir_file:
  "fs_get (fs w) l = Some (File b) \<Longrightarrow> fs_get (fs (snd (remove_dir p w))) l = Some (File b)"
  by (auto simp: remove_dir_def dest!: fs_remove_dir_get [where k = l] split: sum.splits if_splits
    intro!: syscall_get [THEN trans])

lemmas untouched = create_dir_all_get write_file_get append_file_get rename_file_get
  remove_file_get remove_dir_get

section \<open>Frame relations\<close>

text \<open>No file changes; only the file a path denotes changes.\<close>

definition fs_same :: "'x world \<Rightarrow> 'x world \<Rightarrow> bool" where
  "fs_same w w' \<longleftrightarrow> fs w' = fs w \<and> cwd w' = cwd w"

definition only_at :: "path \<Rightarrow> 'x world \<Rightarrow> 'x world \<Rightarrow> bool" where
  "only_at p w w' \<longleftrightarrow>
     cwd w' = cwd w \<and> (\<forall>l. l \<noteq> loc_of (cwd w) p \<longrightarrow> fs_get (fs w') l = fs_get (fs w) l)"

interpretation fsame: frame_rel fs_same
  by unfold_locales (auto simp: fs_same_def)

interpretation fonly: frame_rel "only_at p" for p
  by unfold_locales (auto simp: only_at_def)

lemma fs_same_only: "fs_same v w \<Longrightarrow> only_at p v w"
  by (simp add: fs_same_def only_at_def)

lemma stays_same_calls [simp]:
  "stays fs_same (read_file p)" "stays fs_same (metadata p)" "stays fs_same (path_exists p)"
  "stays fs_same (flush_file p)"
  by (simp_all add: stays_def fs_same_def frame_simps)

lemma stays_only_calls [simp]:
  "stays (only_at p) (write_file p b)" "stays (only_at p) (create_file p)"
  "stays (only_at p) (append_file p b)" "stays (only_at p) (remove_file p)"
  "stays (only_at p) (remove_dir p)" "stays (only_at p) (flush_file q)"
  by (simp_all add: stays_def only_at_def frame_simps untouched create_file_def)

lemma keeps_of_same: "stays fs_same m \<Longrightarrow> keeps (\<lambda>w. P (fs w)) m"
  by (simp add: stays_def keeps_def fs_same_def)

end
