(* ===== verification/Reference.thy ===== *)
theory Reference
  imports World
begin

text \<open>
  The first part of \<open>registry.rs\<close>: the errors of the registry client and the OCI references
  \<open>registry/repository[:tag|@digest]\<close>. The parser works with byte offsets and slices; the lemmas
  show that it never panics, what the accepted strings look like, and that the two written forms of
  a reference are read back as the reference they were written for.
\<close>

datatype http_error = HttpError rstr

datatype detail = Text rstr | LibError rstr | SizeMismatch nat u64

datatype registry_error =
    BadReference rstr rstr
  | Http http_error
  | Io io_error
  | Status rstr nat
  | DigestMismatch rstr rstr rstr
  | NoLayers rstr
  | BadResponse rstr detail

record oci_reference =
  registry :: rstr
  repository :: rstr
  reference :: rstr

text \<open>The name and the tag or digest; \<open>None\<close> is a panic in a slice.\<close>

definition ref_split_bytes :: "rstr \<Rightarrow> (rstr \<times> rstr) option" where
  "ref_split_bytes s =
     (case split_once c_at s of
        Some (n, d) \<Rightarrow> Some (n, d)
      | None \<Rightarrow>
          (let slash = (case rfind c_slash s of Some i \<Rightarrow> i + 1 | None \<Rightarrow> 0)
           in case slice_from slash s of
                None \<Rightarrow> None
              | Some tail \<Rightarrow>
                  (case rfind c_colon tail of
                     Some colon \<Rightarrow>
                       (case (slice_to (slash + colon) s, slice_from (slash + colon + 1) s) of
                          (Some n, Some r) \<Rightarrow> Some (n, r)
                        | _ \<Rightarrow> None)
                   | None \<Rightarrow> Some (s, str ''latest''))))"

definition reference_parse_bytes :: "rstr \<Rightarrow> (registry_error + oci_reference) option" where
  "reference_parse_bytes s =
     (case ref_split_bytes s of
        None \<Rightarrow> None
      | Some (name, rf) \<Rightarrow>
          Some (case split_once c_slash name of
                  None \<Rightarrow> Inl (BadReference s (str ''missing registry host (expected registry/repo)''))
                | Some (reg, repo) \<Rightarrow>
                    (if reg = [] \<or> repo = [] \<or> rf = []
                     then Inl (BadReference s (str ''empty registry, repository, or reference''))
                     else Inr \<lparr>registry = reg, repository = repo, reference = rf\<rparr>)))"

text \<open>The value the callers see (\<open>reference_parse_bytes_total\<close>: the last branch is dead).\<close>

definition reference_parse :: "rstr \<Rightarrow> registry_error + oci_reference" where
  "reference_parse s =
     (case reference_parse_bytes s of
        Some r \<Rightarrow> r
      | None \<Rightarrow> Inl (BadReference s (str ''panic'')))"

text \<open>The two written forms of a reference in the source: \<open>REPO:TAG\<close> with \<open>REPO\<close> a
  \<open>registry/repository\<close>, and \<open>REGISTRY/REPOSITORY\<close> with \<open>@\<close> and a digest.\<close>

definition tag_form :: "rstr \<Rightarrow> rstr \<Rightarrow> rstr" where
  "tag_form repo tag = repo @ c_colon # tag"

definition digest_form :: "rstr \<Rightarrow> rstr \<Rightarrow> rstr \<Rightarrow> rstr" where
  "digest_form reg repo d = reg @ c_slash # repo @ c_at # d"

section \<open>No panic\<close>

text \<open>What \<open>ref_split_bytes\<close> computes, on strings instead of offsets.\<close>

definition last_seg :: "rstr \<Rightarrow> rstr" where
  "last_seg s = rev (takeWhile (\<lambda>c. c \<noteq> c_slash) (rev s))"

definition ref_split :: "rstr \<Rightarrow> rstr \<times> rstr" where
  "ref_split s =
     (if c_at \<in> set s
      then (takeWhile (\<lambda>c. c \<noteq> c_at) s, tl (dropWhile (\<lambda>c. c \<noteq> c_at) s))
      else if c_colon \<in> set (last_seg s)
      then (rev (tl (dropWhile (\<lambda>c. c \<noteq> c_colon) (rev s))), rev (takeWhile (\<lambda>c. c \<noteq> c_colon) (rev s)))
      else (s, str ''latest''))"

lemma ref_split_at [simp]: "c_at \<notin> set n \<Longrightarrow> ref_split (n @ c_at # d) = (n, d)"
  by (simp add: ref_split_def takeWhile_append dropWhile_append)

lemma ref_split_tag [simp]:
  assumes "c_at \<notin> set n" "c_at \<notin> set t" "c_slash \<notin> set t" "c_colon \<notin> set t"
  shows "ref_split (n @ c_colon # t) = (n, t)"
proof -
  have "c_colon \<in> set (last_seg (n @ c_colon # t))"
    using assms by (simp add: last_seg_def takeWhile_append)
  then show ?thesis using assms by (simp add: ref_split_def takeWhile_append dropWhile_append)
qed

lemma ref_split_plain [simp]:
  "c_at \<notin> set s \<Longrightarrow> c_colon \<notin> set (last_seg s) \<Longrightarrow> ref_split s = (s, str ''latest'')"
  by (simp add: ref_split_def)

lemma last_seg_app [simp]: "c_slash \<notin> set a \<Longrightarrow> last_seg (d @ c_slash # a) = a"
  by (simp add: last_seg_def takeWhile_append)

lemma last_seg_free [simp]: "c_slash \<notin> set a \<Longrightarrow> last_seg a = a"
proof -
  assume "c_slash \<notin> set a"
  then have "takeWhile (\<lambda>c. c \<noteq> c_slash) (rev a) = rev a" by (auto simp: takeWhile_eq_all_conv)
  then show ?thesis by (simp only: last_seg_def rev_rev_ident)
qed

text \<open>Every string is of one of the three shapes.\<close>

lemma ref_shape:
  obtains (digest) n d where "s = n @ c_at # d" and "c_at \<notin> set n"
  | (tagged) n t where "s = n @ c_colon # t" and "c_at \<notin> set s" and "c_slash \<notin> set t" and "c_colon \<notin> set t"
  | (plain) "c_at \<notin> set s" and "c_colon \<notin> set (last_seg s)"
proof (cases "c_at \<in> set s")
  case True
  then show thesis using digest by (metis split_list_first)
next
  case no_at: False
  show thesis
  proof (cases "c_colon \<in> set (last_seg s)")
    case True
    then obtain x t where xt: "last_seg s = x @ c_colon # t" "c_colon \<notin> set t"
      by (metis split_list_last)
    have "s = rev (dropWhile (\<lambda>c. c \<noteq> c_slash) (rev s)) @ last_seg s"
      unfolding last_seg_def rev_append [symmetric] takeWhile_dropWhile_id by simp
    moreover have "c_slash \<notin> set (last_seg s)"
      by (auto simp: last_seg_def dest: set_takeWhileD)
    ultimately show thesis
      using tagged [of "rev (dropWhile (\<lambda>c. c \<noteq> c_slash) (rev s)) @ x" t] xt no_at by simp
  qed (use plain no_at in blast)
qed

lemma tail_offset:
  obtains d where "s = d @ last_seg s"
    and "(case rfind c_slash s of Some i \<Rightarrow> i + 1 | None \<Rightarrow> 0) = byte_len d"
proof (cases "c_slash \<in> set s")
  case True
  then obtain d a where "s = d @ c_slash # a" "c_slash \<notin> set a" by (metis split_list_last)
  then show thesis by (intro that [of "d @ [c_slash]"]) simp_all
next
  case False
  then show thesis by (intro that [of "[]"]) simp_all
qed

lemma ref_split_bytes_eq: "ref_split_bytes s = Some (ref_split s)"
proof (cases rule: ref_shape [of s])
  case (digest n d)
  then show ?thesis by (simp add: ref_split_bytes_def)
next
  case plain
  obtain d where d: "s = d @ last_seg s"
    "(case rfind c_slash s of Some i \<Rightarrow> i + 1 | None \<Rightarrow> 0) = byte_len d" by (rule tail_offset)
  have "slice_from (byte_len d) s = Some (last_seg s)" by (subst d(1)) simp
  with plain d(2) show ?thesis by (simp add: ref_split_bytes_def)
next
  case (tagged n t)
  obtain d where d: "s = d @ last_seg s"
    "(case rfind c_slash s of Some i \<Rightarrow> i + 1 | None \<Rightarrow> 0) = byte_len d" by (rule tail_offset)
  have "c_slash \<notin> set (last_seg s)"
    by (auto simp: last_seg_def dest: set_takeWhileD)
  from tagged have "c_colon \<in> set (last_seg s)" by (simp add: last_seg_def takeWhile_append)
  then obtain x u where xu: "last_seg s = x @ c_colon # u" "c_colon \<notin> set u"
    by (metis split_list_last)
  have "n = d @ x \<and> t = u"
  proof -
    have "n @ c_colon # t = (d @ x) @ c_colon # u" using d(1) xu tagged by simp
    then have "c_colon # t = c_colon # u \<and> n = d @ x"
      using tagged(4) xu(2) by (auto simp: append_eq_append_conv2 append_eq_Cons_conv Cons_eq_append_conv)
    then show ?thesis by simp
  qed
  moreover have "slice_from (byte_len d) s = Some (last_seg s)" by (subst d(1)) simp
  ultimately show ?thesis
    using tagged d(2) xu slice_to_app [of "d @ x" "c_colon # u"]
      slice_from_Suc [of c_colon "d @ x" u] ref_split_tag [of "d @ x" u]
    by (simp add: ref_split_bytes_def)
qed

lemma reference_parse_bytes_total: "reference_parse_bytes s = Some (reference_parse s)"
  by (simp add: reference_parse_def reference_parse_bytes_def ref_split_bytes_eq split: prod.split)

lemma reference_parse_eq:
  "reference_parse s =
     (case split_once c_slash (fst (ref_split s)) of
        None \<Rightarrow> Inl (BadReference s (str ''missing registry host (expected registry/repo)''))
      | Some (reg, repo) \<Rightarrow>
          (if reg = [] \<or> repo = [] \<or> snd (ref_split s) = []
           then Inl (BadReference s (str ''empty registry, repository, or reference''))
           else Inr \<lparr>registry = reg, repository = repo, reference = snd (ref_split s)\<rparr>))"
  by (cases "ref_split s")
    (simp add: reference_parse_def reference_parse_bytes_def ref_split_bytes_eq split: option.split)

section \<open>Written forms\<close>

lemma parse_of_split:
  assumes "ref_split s = (reg @ c_slash # repo, rf)" and "c_slash \<notin> set reg"
    and "reg \<noteq> []" and "repo \<noteq> []" and "rf \<noteq> []"
  shows "reference_parse s = Inr \<lparr>registry = reg, repository = repo, reference = rf\<rparr>"
  using assms by (simp add: reference_parse_eq)

lemma parse_digest_form:
  assumes "c_slash \<notin> set reg" and "reg \<noteq> []" and "repo \<noteq> []" and "d \<noteq> []"
    and "c_at \<notin> set reg" and "c_at \<notin> set repo"
  shows "reference_parse (digest_form reg repo d) =
         Inr \<lparr>registry = reg, repository = repo, reference = d\<rparr>"
  using assms ref_split_at [of "reg @ c_slash # repo" d]
  by (intro parse_of_split) (auto simp: digest_form_def)

lemma parse_tag_form:
  assumes "c_slash \<notin> set reg" and "reg \<noteq> []" and "repo \<noteq> []"
    and "c_at \<notin> set reg" and "c_at \<notin> set repo"
    and "t \<noteq> []" and "c_at \<notin> set t" and "c_slash \<notin> set t" and "c_colon \<notin> set t"
  shows "reference_parse (tag_form (reg @ c_slash # repo) t) =
         Inr \<lparr>registry = reg, repository = repo, reference = t\<rparr>"
  using assms ref_split_tag [of "reg @ c_slash # repo" t]
  by (intro parse_of_split) (auto simp: tag_form_def)

text \<open>An accepted string: its parts are not empty, the host has no slash, the name no \<open>@\<close>, and the
  string is one of the three documented spellings.\<close>

lemma reference_parse_Inr:
  assumes "reference_parse s = Inr r"
  shows "registry r \<noteq> [] \<and> repository r \<noteq> [] \<and> reference r \<noteq> [] \<and>
         c_slash \<notin> set (registry r) \<and> c_at \<notin> set (registry r) \<and> c_at \<notin> set (repository r)"
    and "s = digest_form (registry r) (repository r) (reference r) \<or>
         s = tag_form (registry r @ c_slash # repository r) (reference r) \<or>
         s = registry r @ c_slash # repository r \<and> reference r = str ''latest''"
proof -
  obtain name rf where nr: "ref_split s = (name, rf)" by fastforce
  with assms have name: "name = registry r @ c_slash # repository r" and rf: "rf = reference r"
    and ne: "registry r \<noteq> []" "repository r \<noteq> []" "reference r \<noteq> []" "c_slash \<notin> set (registry r)"
    by (auto simp: reference_parse_eq split_once_Some split: option.splits if_splits)
  have "c_at \<notin> set name \<and>
    (s = name @ c_at # rf \<or> s = name @ c_colon # rf \<or> s = name \<and> rf = str ''latest'')"
    using nr by (cases rule: ref_shape [of s]) auto
  with name rf ne show
    "registry r \<noteq> [] \<and> repository r \<noteq> [] \<and> reference r \<noteq> [] \<and>
     c_slash \<notin> set (registry r) \<and> c_at \<notin> set (registry r) \<and> c_at \<notin> set (repository r)"
    "s = digest_form (registry r) (repository r) (reference r) \<or>
     s = tag_form (registry r @ c_slash # repository r) (reference r) \<or>
     s = registry r @ c_slash # repository r \<and> reference r = str ''latest''"
    by (auto simp: digest_form_def tag_form_def)
qed

text \<open>The canonical reference of a pushed revision names the same repository by digest.\<close>

lemma canonical_parses:
  assumes "reference_parse s = Inr r" and "d \<noteq> []"
  shows "reference_parse (digest_form (registry r) (repository r) d) = Inr (r\<lparr>reference := d\<rparr>)"
  using reference_parse_Inr(1) [OF assms(1)] assms(2) by (simp add: parse_digest_form)

section \<open>Properties\<close>

text \<open>
  C26. \<open>Reference::parse\<close> never panics on its byte offsets, for any Unicode string, and accepts exactly the strings \<open>registry/repository@digest\<close>,
  \<open>registry/repository:tag\<close> and \<open>registry/repository\<close> (tag \<open>latest\<close>), with the parts it returns:
  all three not empty, the registry the part before the first slash, and the tag the part after the
  last colon of the last segment, so that the port of a registry is not taken for a tag.
\<close>

theorem reference_parse_accepts:
  "reference_parse_bytes s = Some (reference_parse s) \<and>
   (reference_parse s = Inr r \<longleftrightarrow>
     registry r \<noteq> [] \<and> repository r \<noteq> [] \<and> reference r \<noteq> [] \<and> c_slash \<notin> set (registry r) \<and>
     c_at \<notin> set (registry r) \<and> c_at \<notin> set (repository r) \<and>
     (s = digest_form (registry r) (repository r) (reference r) \<or>
      s = tag_form (registry r @ c_slash # repository r) (reference r) \<and>
        c_at \<notin> set (reference r) \<and> c_slash \<notin> set (reference r) \<and> c_colon \<notin> set (reference r) \<or>
      s = registry r @ c_slash # repository r \<and> c_colon \<notin> set (last_seg s) \<and> reference r = str ''latest''))"
    (is "_ \<and> (?L \<longleftrightarrow> ?R)")
proof (rule conjI [OF reference_parse_bytes_total], rule iffI)
  assume L: ?L
  have *: "ref_split s = (registry r @ c_slash # repository r, reference r)"
    using L by (cases "ref_split s") (auto simp: reference_parse_eq split_once_Some split: option.splits if_splits)
  show ?R using reference_parse_Inr(1) [OF L] *
    by (cases rule: ref_shape [of s]) (auto simp: digest_form_def tag_form_def)
next
  assume R: ?R
  then consider "s = digest_form (registry r) (repository r) (reference r)"
    | "s = tag_form (registry r @ c_slash # repository r) (reference r)"
      "c_at \<notin> set (reference r)" "c_slash \<notin> set (reference r)" "c_colon \<notin> set (reference r)"
    | "s = registry r @ c_slash # repository r" "c_colon \<notin> set (last_seg s)" "reference r = str ''latest''"
    by blast
  then show ?L
  proof cases
    case 3
    with R have "c_at \<notin> set s" by auto
    with 3 have "ref_split s = (registry r @ c_slash # repository r, str ''latest'')" by simp
    with R 3 show ?thesis using parse_of_split by (metis oci_reference.surjective old.unit.exhaust)
  qed (use R in \<open>simp_all add: parse_digest_form parse_tag_form\<close>)
qed

end
