(* ===== verification/Registry.thy ===== *)
theory Registry
  imports Reference
begin

text \<open>
  The second part of \<open>registry.rs\<close>: the trait \<open>Registry\<close> and its implementation \<open>OciClient\<close>.

  What is not the driver's code is a parameter: \<open>http\<close> is the HTTP client together with the server
  behind it, an arbitrary function on the state \<open>ext\<close> of the world; \<open>oci_libs\<close> holds the functions
  of the crates \<open>sha2\<close>, \<open>hex\<close> and \<open>serde_json\<close>. A response carries its body as the list of chunks
  the stream yields, each a chunk or a transport error, and a header lookup yields the header's text
  when it is present and is text.
\<close>

datatype http_method = GET | HEAD | POST | PUT

record http_req =
  hq_method :: http_method
  hq_url :: rstr
  hq_headers :: "(rstr \<times> rstr) list"
  hq_body :: bytes

record http_resp =
  hr_status :: nat
  hr_header :: "rstr \<Rightarrow> rstr option"
  hr_chunks :: "(http_error + bytes) list"

type_synonym 'x http = "http_req \<Rightarrow> 'x \<Rightarrow> (http_error + http_resp) \<times> 'x"

definition LAYER_ZSTD :: rstr where
  "LAYER_ZSTD = str ''application/vnd.oci.image.layer.v1.tar+zstd''"
definition MANIFEST :: rstr where
  "MANIFEST = str ''application/vnd.oci.image.manifest.v1+json''"
definition EMPTY_CONFIG :: rstr where
  "EMPTY_CONFIG = str ''application/vnd.oci.empty.v1+json''"
definition PVC_ARTIFACT_TYPE :: rstr where
  "PVC_ARTIFACT_TYPE = str ''application/vnd.rspacefs.pvc.layer.v1+tar+zstd''"
definition EMPTY_CONFIG_BYTES :: bytes where
  "EMPTY_CONFIG_BYTES = [123, 125]"
definition EMPTY_CONFIG_DIGEST :: rstr where
  "EMPTY_CONFIG_DIGEST =
     str ''sha256:44136fa355b3678a1146ad16f7e8649e94fb4fc21fe77e8310c060f61caaff8a''"
definition MANIFEST_ACCEPT :: rstr where
  "MANIFEST_ACCEPT =
     str ''application/vnd.oci.image.manifest.v1+json, '' @
     str ''application/vnd.oci.image.index.v1+json, '' @
     str ''application/vnd.docker.distribution.manifest.v2+json, '' @
     str ''application/vnd.docker.distribution.manifest.list.v2+json''"

record layer_ref =
  lr_media_type :: rstr
  lr_digest :: rstr
  lr_size :: u64

record wire_descriptor =
  wd_media_type :: rstr
  wd_digest :: rstr
  wd_size :: u64

record wire_manifest =
  wm_layers :: "wire_descriptor list"
  wm_manifests :: "rstr list"

record out_descriptor =
  od_media_type :: rstr
  od_digest :: rstr
  od_size :: u64

record out_manifest =
  om_schema_version :: u32
  om_media_type :: rstr
  om_artifact_type :: rstr
  om_config :: out_descriptor
  om_layers :: "out_descriptor list"
  om_annotations :: "rstr \<rightharpoonup> rstr"

record 'h oci_libs =
  sha_new :: 'h
  sha_update :: "'h \<Rightarrow> bytes \<Rightarrow> 'h"
  sha_finalize :: "'h \<Rightarrow> bytes"
  sha_digest :: "bytes \<Rightarrow> bytes"
  hex_encode :: "bytes \<Rightarrow> rstr"
  manifest_from_slice :: "bytes \<Rightarrow> rstr + wire_manifest"
  manifest_to_vec :: "out_manifest \<Rightarrow> rstr + bytes"

record 'x oci_client =
  http :: "'x http"
  scheme :: rstr

text \<open>The trait \<open>Registry\<close>.\<close>

record 'x registry_ops =
  reg_resolve :: "rstr \<Rightarrow> ('x world, registry_error, layer_ref list) io"
  reg_pull_layers :: "rstr \<Rightarrow> path \<Rightarrow> ('x world, registry_error, path list) io"
  reg_push_revision :: "rstr \<Rightarrow> path \<Rightarrow> rstr \<Rightarrow> u64 \<Rightarrow> ('x world, registry_error, rstr) io"

section \<open>The client\<close>

text \<open>\<open>OciClient::new\<close>; the client builder is a parameter.\<close>

definition oci_new :: "(bool \<Rightarrow> http_error + 'x http) \<Rightarrow> rstr \<Rightarrow> bool \<Rightarrow> registry_error + 'x oci_client" where
  "oci_new build sch insecure =
     (case build insecure of Inl e \<Rightarrow> Inl (Http e) | Inr h \<Rightarrow> Inr \<lparr>http = h, scheme = sch\<rparr>)"

definition http_send :: "'x http \<Rightarrow> http_req \<Rightarrow> ('x world, http_error, http_resp) io" where
  "http_send h q w = (case h q (ext w) of (r, x) \<Rightarrow> (r, w\<lparr>ext := x\<rparr>))"

definition is_success :: "nat \<Rightarrow> bool" where
  "is_success s \<longleftrightarrow> 200 \<le> s \<and> s < 300"

text \<open>\<open>Response::bytes\<close>: the whole body, or the first error of the stream.\<close>

fun collect_body :: "(http_error + bytes) list \<Rightarrow> http_error + bytes" where
  "collect_body [] = Inr []"
| "collect_body (Inl e # cs) = Inl e"
| "collect_body (Inr b # cs) = (case collect_body cs of Inl e \<Rightarrow> Inl e | Inr bs \<Rightarrow> Inr (b @ bs))"

definition manifest_url :: "'x oci_client \<Rightarrow> oci_reference \<Rightarrow> rstr" where
  "manifest_url c r =
     scheme c @ str ''://'' @ registry r @ str ''/v2/'' @ repository r @ str ''/manifests/'' @ reference r"

definition blob_url :: "'x oci_client \<Rightarrow> oci_reference \<Rightarrow> rstr \<Rightarrow> rstr" where
  "blob_url c r d =
     scheme c @ str ''://'' @ registry r @ str ''/v2/'' @ repository r @ str ''/blobs/'' @ d"

definition uploads_url :: "'x oci_client \<Rightarrow> rstr \<Rightarrow> rstr \<Rightarrow> rstr" where
  "uploads_url c reg repo = scheme c @ str ''://'' @ reg @ str ''/v2/'' @ repo @ str ''/blobs/uploads/''"

definition fetch_manifest :: "'x oci_client \<Rightarrow> oci_reference \<Rightarrow> ('x world, registry_error, bytes) io" where
  "fetch_manifest c r =
     (let url = manifest_url c r
      in io_bind
           (io_map_err Http
             (http_send (http c)
               \<lparr>hq_method = GET, hq_url = url, hq_headers = [(str ''accept'', MANIFEST_ACCEPT)], hq_body = []\<rparr>))
           (\<lambda>resp.
             if \<not> is_success (hr_status resp) then io_err (Status url (hr_status resp))
             else io_lift (res_map_err Http (collect_body (hr_chunks resp)))))"

definition parse_layers ::
  "'h oci_libs \<Rightarrow> oci_reference \<Rightarrow> bytes \<Rightarrow> registry_error + layer_ref list" where
  "parse_layers L r body =
     (case manifest_from_slice L body of
        Inl e \<Rightarrow> Inl (BadResponse (repository r) (LibError e))
      | Inr m \<Rightarrow>
          (if wm_manifests m \<noteq> []
           then Inl (BadResponse (repository r)
                  (Text (str ''seed is a multi-arch index; a PVC data artifact must be a single manifest'')))
           else if wm_layers m = [] then Inl (NoLayers (repository r))
           else Inr (map (\<lambda>d. \<lparr>lr_media_type = wd_media_type d, lr_digest = wd_digest d, lr_size = wd_size d\<rparr>)
                      (rev (wm_layers m)))))"

definition blob_exists ::
  "'x oci_client \<Rightarrow> rstr \<Rightarrow> rstr \<Rightarrow> rstr \<Rightarrow> ('x world, registry_error, bool) io" where
  "blob_exists c reg repo d =
     (let r = \<lparr>registry = reg, repository = repo, reference = d\<rparr>
      in io_bind
           (io_map_err Http
             (http_send (http c)
               \<lparr>hq_method = HEAD, hq_url = blob_url c r d, hq_headers = [], hq_body = []\<rparr>))
           (\<lambda>resp. io_ok (is_success (hr_status resp))))"

definition resolve_location :: "'x oci_client \<Rightarrow> rstr \<Rightarrow> rstr \<Rightarrow> rstr \<Rightarrow> rstr" where
  "resolve_location c reg location d =
     (let base = (if starts_with (str ''http://'') location \<or> starts_with (str ''https://'') location
                  then location
                  else scheme c @ str ''://'' @ reg @ location);
          sep = (if c_quest \<in> set base then c_amp else c_quest)
      in base @ sep # str ''digest='' @ d)"

definition push_blob ::
  "'x oci_client \<Rightarrow> rstr \<Rightarrow> rstr \<Rightarrow> rstr \<Rightarrow> bytes \<Rightarrow> ('x world, registry_error, unit) io" where
  "push_blob c reg repo d body =
     io_bind (blob_exists c reg repo d) (\<lambda>present.
       if present then io_ok ()
       else let start = uploads_url c reg repo
            in io_bind
                 (io_map_err Http
                   (http_send (http c) \<lparr>hq_method = POST, hq_url = start, hq_headers = [], hq_body = []\<rparr>))
                 (\<lambda>resp.
                   if hr_status resp \<noteq> 202 then io_err (Status start (hr_status resp))
                   else io_bind
                     (io_lift (ok_or (hr_header resp (str ''location''))
                       (BadResponse repo (Text (str ''upload POST had no Location'')))))
                     (\<lambda>location.
                       let put_url = resolve_location c reg location d
                       in io_bind
                            (io_map_err Http
                              (http_send (http c)
                                \<lparr>hq_method = PUT, hq_url = put_url,
                                 hq_headers = [(str ''content-type'', str ''application/octet-stream'')],
                                 hq_body = body\<rparr>))
                            (\<lambda>resp.
                              if \<not> is_success (hr_status resp)
                              then io_err (Status put_url (hr_status resp))
                              else io_ok ()))))"

text \<open>The name a digest is compared with: \<open>format!("sha256:{}", hex::encode(..))\<close>.\<close>

definition sha_name :: "'h oci_libs \<Rightarrow> bytes \<Rightarrow> rstr" where
  "sha_name L h = str ''sha256:'' @ hex_encode L h"

text \<open>The loop of \<open>pull_blob_to\<close> over the chunks of the stream.\<close>

fun stream_to ::
  "'h oci_libs \<Rightarrow> path \<Rightarrow> (http_error + bytes) list \<Rightarrow> 'h \<Rightarrow> ('x world, registry_error, 'h) io" where
  "stream_to L out [] h = io_ok h"
| "stream_to L out (Inl e # cs) h = io_err (Http e)"
| "stream_to L out (Inr b # cs) h =
     io_bind (io_map_err Io (append_file out b)) (\<lambda>_. stream_to L out cs (sha_update L h b))"

definition pull_blob_to ::
  "'h oci_libs \<Rightarrow> 'x oci_client \<Rightarrow> oci_reference \<Rightarrow> rstr \<Rightarrow> path \<Rightarrow> ('x world, registry_error, unit) io" where
  "pull_blob_to L c r d out =
     (let url = blob_url c r d
      in io_bind
           (io_map_err Http
             (http_send (http c) \<lparr>hq_method = GET, hq_url = url, hq_headers = [], hq_body = []\<rparr>))
           (\<lambda>resp.
             if \<not> is_success (hr_status resp) then io_err (Status url (hr_status resp))
             else io_bind (io_map_err Io (create_file out)) (\<lambda>_.
                  io_bind (stream_to L out (hr_chunks resp) (sha_new L)) (\<lambda>hasher.
                  io_bind (io_map_err Io (flush_file out)) (\<lambda>_.
                    let got = sha_name L (sha_finalize L hasher)
                    in if \<not> eq_ignore_ascii_case d got
                       then io_bind (io_ignore (remove_file out)) (\<lambda>_.
                              io_err (DigestMismatch (repository r) d got))
                       else io_ok ())))))"

definition oci_resolve ::
  "'h oci_libs \<Rightarrow> 'x oci_client \<Rightarrow> rstr \<Rightarrow> ('x world, registry_error, layer_ref list) io" where
  "oci_resolve L c seed =
     io_bind (io_lift (reference_parse seed)) (\<lambda>r.
     io_bind (fetch_manifest c r) (\<lambda>body. io_lift (parse_layers L r body)))"

text \<open>Where a layer is cached: \<open>dir.join(format!("{}.blob", digest.replace(':', "-")))\<close>, and the
  name it has while it is being pulled.\<close>

definition blob_path :: "path \<Rightarrow> rstr \<Rightarrow> path" where
  "blob_path dir d = path_join dir (replace_char c_colon c_dash d @ str ''.blob'')"

definition partial_path :: "path \<Rightarrow> rstr \<Rightarrow> path" where
  "partial_path dir d = with_extension (blob_path dir d) (str ''blob.partial'')"

fun pull_each ::
  "'h oci_libs \<Rightarrow> 'x oci_client \<Rightarrow> oci_reference \<Rightarrow> path \<Rightarrow> layer_ref list \<Rightarrow> path list \<Rightarrow>
   ('x world, registry_error, path list) io" where
  "pull_each L c r dir [] paths = io_ok paths"
| "pull_each L c r dir (layer # layers) paths =
     (let out = blob_path dir (lr_digest layer); tmp = partial_path dir (lr_digest layer)
      in io_bind (path_exists out) (\<lambda>cached.
           if cached then pull_each L c r dir layers (paths @ [out])
           else io_bind (pull_blob_to L c r (lr_digest layer) tmp) (\<lambda>_.
                io_bind (io_map_err Io (rename_file tmp out)) (\<lambda>_.
                  pull_each L c r dir layers (paths @ [out])))))"

definition oci_pull_layers ::
  "'h oci_libs \<Rightarrow> 'x oci_client \<Rightarrow> rstr \<Rightarrow> path \<Rightarrow> ('x world, registry_error, path list) io" where
  "oci_pull_layers L c seed dir =
     io_bind (io_lift (reference_parse seed)) (\<lambda>r.
     io_bind (oci_resolve L c seed) (\<lambda>layers.
     io_bind (io_map_err Io (create_dir_all dir)) (\<lambda>_.
       pull_each L c r dir layers [])))"

definition revision_manifest :: "oci_reference \<Rightarrow> rstr \<Rightarrow> u64 \<Rightarrow> out_manifest" where
  "revision_manifest r layer_digest layer_size =
     \<lparr>om_schema_version = 2,
      om_media_type = MANIFEST,
      om_artifact_type = PVC_ARTIFACT_TYPE,
      om_config =
        \<lparr>od_media_type = EMPTY_CONFIG, od_digest = EMPTY_CONFIG_DIGEST,
         od_size = word_of_nat (length EMPTY_CONFIG_BYTES)\<rparr>,
      om_layers = [\<lparr>od_media_type = LAYER_ZSTD, od_digest = layer_digest, od_size = layer_size\<rparr>],
      om_annotations =
        [str ''org.opencontainers.image.title'' \<mapsto> reference r,
         str ''io.g8.rspacefs.pvc'' \<mapsto> str ''true'']\<rparr>"

definition oci_push_revision ::
  "'h oci_libs \<Rightarrow> 'x oci_client \<Rightarrow> rstr \<Rightarrow> path \<Rightarrow> rstr \<Rightarrow> u64 \<Rightarrow> ('x world, registry_error, rstr) io" where
  "oci_push_revision L c target_ref blob layer_digest layer_size =
     io_bind (io_lift (reference_parse target_ref)) (\<lambda>r.
     io_bind (io_map_err Io (read_file blob)) (\<lambda>layer_bytes.
       if word_of_nat (length layer_bytes) \<noteq> layer_size
       then io_err (BadResponse (repository r) (SizeMismatch (length layer_bytes) layer_size))
       else
         io_bind (push_blob c (registry r) (repository r) layer_digest layer_bytes) (\<lambda>_.
         io_bind (push_blob c (registry r) (repository r) EMPTY_CONFIG_DIGEST EMPTY_CONFIG_BYTES) (\<lambda>_.
         io_bind
           (io_lift (res_map_err (\<lambda>e. BadResponse (repository r) (LibError e))
             (manifest_to_vec L (revision_manifest r layer_digest layer_size))))
           (\<lambda>manifest_bytes.
             let manifest_digest = sha_name L (sha_digest L manifest_bytes);
                 url = manifest_url c r
             in io_bind
                  (io_map_err Http
                    (http_send (http c)
                      \<lparr>hq_method = PUT, hq_url = url, hq_headers = [(str ''content-type'', MANIFEST)],
                       hq_body = manifest_bytes\<rparr>))
                  (\<lambda>resp.
                    if \<not> is_success (hr_status resp) then io_err (Status url (hr_status resp))
                    else io_ok (digest_form (registry r) (repository r)
                           (case hr_header resp (str ''docker-content-digest'') of
                              Some d \<Rightarrow> d | None \<Rightarrow> manifest_digest))))))))"

definition oci_registry :: "'h oci_libs \<Rightarrow> 'x oci_client \<Rightarrow> 'x registry_ops" where
  "oci_registry L c =
     \<lparr>reg_resolve = oci_resolve L c,
      reg_pull_layers = oci_pull_layers L c,
      reg_push_revision = oci_push_revision L c\<rparr>"

text \<open>What the client relies on in \<open>sha2\<close> and \<open>hex\<close>, as documented: hashing chunk by chunk is
  hashing the concatenation, and an encoding is made of the digits \<open>0-9a-f\<close>.\<close>

definition sha_incremental :: "'h oci_libs \<Rightarrow> bool" where
  "sha_incremental L \<longleftrightarrow>
     (\<forall>bs. sha_finalize L (foldl (sha_update L) (sha_new L) bs) = sha_digest L (concat bs))"

definition hex_digits :: "'h oci_libs \<Rightarrow> bool" where
  "hex_digits L \<longleftrightarrow>
     (\<forall>b. \<forall>c \<in> set (hex_encode L b). (48 \<le> c \<and> c \<le> 57) \<or> (97 \<le> c \<and> c \<le> 102))"

section \<open>Frames\<close>

lemma http_send_same [simp]: "stays fs_same (http_send h q)"
  by (simp add: stays_def fs_same_def http_send_def split: prod.split)

lemma fetch_manifest_same [simp]: "stays fs_same (fetch_manifest c r)"
  unfolding fetch_manifest_def Let_def by (intro fsame.bind) (simp_all add: fsame.err fsame.lift)

lemma oci_resolve_same [simp]: "stays fs_same (oci_resolve L c seed)"
  unfolding oci_resolve_def by (intro fsame.bind) (simp_all add: fsame.lift)

lemma blob_exists_same [simp]: "stays fs_same (blob_exists c reg repo d)"
  unfolding blob_exists_def Let_def by (intro fsame.bind) (simp_all add: fsame.ok)

lemma push_blob_same [simp]: "stays fs_same (push_blob c reg repo d body)"
  unfolding push_blob_def Let_def
  by (auto intro!: fsame.bind simp: fsame.ok fsame.err fsame.lift)

lemma oci_push_same [simp]: "stays fs_same (oci_push_revision L c t p d n)"
  unfolding oci_push_revision_def Let_def
  by (auto intro!: fsame.bind simp: fsame.ok fsame.err fsame.lift)

lemma stream_to_only [simp]: "stays (only_at p) (stream_to L p cs h)"
  by (induction L p cs h rule: stream_to.induct) (auto intro!: fonly.bind simp: fonly.pair)

lemma pull_blob_to_only [simp]: "stays (only_at p) (pull_blob_to L c r d p)"
proof -
  have "stays (only_at p) (http_send h q)" for h q
    by (rule stays_mono [OF http_send_same]) (rule fs_same_only)
  then show ?thesis unfolding pull_blob_to_def Let_def
    by (auto intro!: fonly.bind simp: fonly.ok fonly.err)
qed

section \<open>Names in the cache\<close>

lemma blob_suffix [simp]:
  "c_slash \<notin> set (str ''.blob'')" "str ''.blob'' \<noteq> []" "last (str ''.blob'') \<noteq> c_dot"
  "c_slash \<notin> set (str ''.partial'')" "str ''.partial'' \<noteq> []" "last (str ''.partial'') \<noteq> c_dot"
  by (simp_all add: lit_simps)

lemma blob_not_partial [simp]: "a @ str ''.blob'' \<noteq> b @ str ''.partial''"
proof
  assume "a @ str ''.blob'' = b @ str ''.partial''"
  then have "last (a @ str ''.blob'') = last (b @ str ''.partial'')" by simp
  then show False by (simp add: lit_simps)
qed

lemma blob_path_app: "\<exists>y. blob_path dir d = y @ str ''.blob''"
  by (auto simp: blob_path_def path_join_def)

lemma partial_of_app: "\<exists>y. with_extension (p @ str ''.blob'') (str ''blob.partial'') = y @ str ''.partial''"
proof -
  have st: "strip_trail (rev (p @ str ''.blob'')) = rev (p @ str ''.blob'')"
    by (simp add: lit_simps strip_trail.simps)
  have "takeWhile (\<lambda>c. c \<noteq> c_slash) (rev (p @ str ''.blob'')) =
        rev (str ''.blob'') @ takeWhile (\<lambda>c. c \<noteq> c_slash) (rev p)"
    by (simp add: lit_simps)
  then have "rev (takeWhile (\<lambda>c. c \<noteq> c_slash) (rev (p @ str ''.blob''))) \<noteq> []"
    "rev (takeWhile (\<lambda>c. c \<noteq> c_slash) (rev (p @ str ''.blob''))) \<noteq> [c_dot]"
    "rev (takeWhile (\<lambda>c. c \<noteq> c_slash) (rev (p @ str ''.blob''))) \<noteq> [c_dot, c_dot]"
    by (simp_all add: lit_simps append_eq_Cons_conv)
  moreover have "str ''blob.partial'' = str ''blob'' @ str ''.partial''" by (simp add: lit_simps)
  ultimately show ?thesis unfolding with_extension_def Let_def st by auto
qed

lemma loc_blob: "\<exists>l n. loc_of c (blob_path dir d) = l @ [n @ str ''.blob'']"
  using blob_path_app [of dir d] loc_of_suffix [of "str ''.blob''" c] by fastforce

lemma loc_partial: "\<exists>l n. loc_of c (partial_path dir d) = l @ [n @ str ''.partial'']"
proof -
  from blob_path_app obtain y where "blob_path dir d = y @ str ''.blob''" by blast
  with partial_of_app [of y] loc_of_suffix [of "str ''.partial''" c] show ?thesis
    unfolding partial_path_def by fastforce
qed

lemma blob_not_partial_loc: "l @ [n @ str ''.blob''] \<noteq> loc_of c (partial_path dir d)"
  using loc_partial [of c dir d] by auto

lemma loc_blob_plain:
  assumes "c_slash \<notin> set d"
  shows "loc_of c (blob_path dir d) = loc_of c dir @ [replace_char c_colon c_dash d @ str ''.blob'']"
proof -
  from assms have "c_slash \<notin> set (replace_char c_colon c_dash d)" by (auto simp: replace_char_def)
  then have "plain_name (replace_char c_colon c_dash d @ str ''.blob'')"
    by (rule plain_name_suffix) simp_all
  then show ?thesis by (simp add: blob_path_def)
qed

section \<open>What a pulled blob holds\<close>

lemma only_at_cwd: "stays (only_at p) m \<Longrightarrow> m w = (r, w') \<Longrightarrow> cwd w' = cwd w"
  by (auto dest!: staysD' simp: only_at_def)

lemma only_at_get:
  "stays (only_at p) m \<Longrightarrow> m w = (r, w') \<Longrightarrow> l \<noteq> loc_of (cwd w) p \<Longrightarrow> fs_get (fs w') l = fs_get (fs w) l"
  by (auto dest!: staysD' simp: only_at_def)

lemma fs_sameD: "stays fs_same m \<Longrightarrow> m w = (r, w') \<Longrightarrow> fs w' = fs w \<and> cwd w' = cwd w"
  by (auto dest!: staysD' simp: fs_same_def)

lemma stream_to_Inr:
  assumes "stream_to L out cs h w = (Inr h', w')"
    and "fs_get (fs w) (loc_of (cwd w) out) = Some (File a)"
  shows "\<exists>bs. cs = map Inr bs \<and> h' = foldl (sha_update L) h bs \<and>
    fs_get (fs w') (loc_of (cwd w) out) = Some (File (a @ concat bs))"
  using assms
proof (induction L out cs h arbitrary: a w rule: stream_to.induct)
  case (1 L out h)
  then show ?case by simp
next
  case (2 L out e cs h)
  then show ?case by simp
next
  case (3 L out b cs h)
  from "3.prems"(1) obtain w1 where app: "append_file out b w = (Inr (), w1)"
    and rest: "stream_to L out cs (sha_update L h b) w1 = (Inr h', w')"
    by (auto simp: io_bind_eq_Inr)
  from append_file_Inr [OF app] "3.prems"(2)
  have "fs_get (fs w1) (loc_of (cwd w1) out) = Some (File (a @ b))"
    using only_at_cwd [OF stays_only_calls(3) app] by simp
  from "3.IH" [OF rest this] only_at_cwd [OF stays_only_calls(3) app] obtain bs where
    "cs = map Inr bs" "h' = foldl (sha_update L) (sha_update L h b) bs"
    "fs_get (fs w') (loc_of (cwd w) out) = Some (File (a @ b @ concat bs))"
    by auto
  then show ?case by (intro exI [of _ "b # bs"]) simp
qed

lemma pull_blob_to_Inr:
  assumes "pull_blob_to L c r d out w = (Inr u, w')" and "sha_incremental L"
  shows "\<exists>b. fs_get (fs w') (loc_of (cwd w) out) = Some (File b) \<and>
    eq_ignore_ascii_case d (sha_name L (sha_digest L b))"
proof -
  from assms(1) obtain resp w1 w2 h w3 where
    send: "http_send (http c) \<lparr>hq_method = GET, hq_url = blob_url c r d, hq_headers = [], hq_body = []\<rparr> w
           = (Inr resp, w1)"
    and create: "create_file out w1 = (Inr (), w2)"
    and stream: "stream_to L out (hr_chunks resp) (sha_new L) w2 = (Inr h, w3)"
    and flush: "flush_file out w3 = (Inr (), w')"
    and eq: "eq_ignore_ascii_case d (sha_name L (sha_finalize L h))"
    by (auto simp: pull_blob_to_def Let_def io_bind_eq_Inr split: if_splits)
  have cwd: "cwd w1 = cwd w" "cwd w2 = cwd w1"
    using fs_sameD [OF http_send_same send] only_at_cwd [OF stays_only_calls(2) create] by simp_all
  from write_file_Inr [OF create [unfolded create_file_def], of "loc_of (cwd w1) out"] cwd
  have "fs_get (fs w2) (loc_of (cwd w2) out) = Some (File [])" by simp
  from stream_to_Inr [OF stream this] cwd obtain bs where
    "h = foldl (sha_update L) (sha_new L) bs"
    "fs_get (fs w3) (loc_of (cwd w) out) = Some (File (concat bs))" by auto
  with eq assms(2) fs_sameD [OF stays_same_calls(4) flush] show ?thesis
    by (auto simp: sha_incremental_def)
qed

section \<open>The cache\<close>

text \<open>
  The invariant of a directory of pulled layers: every file \<open>NAME.blob\<close> in it holds bytes whose
  digest, spelt with a dash for the colon, is \<open>NAME\<close> up to ASCII case.
\<close>

definition cas_ok :: "'h oci_libs \<Rightarrow> loc \<Rightarrow> fsys \<Rightarrow> bool" where
  "cas_ok L l f \<longleftrightarrow>
     (\<forall>n b. fs_get f (l @ [n @ str ''.blob'']) = Some (File b) \<longrightarrow>
        eq_ignore_ascii_case n (replace_char c_colon c_dash (sha_name L (sha_digest L b))))"

lemma lower_replace:
  "to_ascii_lowercase (replace_char c_colon c_dash s) = replace_char c_colon c_dash (to_ascii_lowercase s)"
  by (auto simp: to_ascii_lowercase_def replace_char_def ascii_lower_def)

lemma eq_ignore_replace:
  "eq_ignore_ascii_case a b \<Longrightarrow>
   eq_ignore_ascii_case (replace_char c_colon c_dash a) (replace_char c_colon c_dash b)"
  by (simp add: eq_ignore_ascii_case_def lower_replace)

lemma slash_lower: "c_slash \<in> set (to_ascii_lowercase s) \<longleftrightarrow> c_slash \<in> set s"
  by (auto simp: to_ascii_lowercase_def ascii_lower_def image_iff split: if_splits)

lemma verified_no_slash:
  assumes "eq_ignore_ascii_case d (sha_name L h)" and "hex_digits L"
  shows "c_slash \<notin> set d"
proof -
  have "c_slash \<notin> set (hex_encode L h)" using assms(2) by (force simp: hex_digits_def)
  then have "c_slash \<notin> set (sha_name L h)" by (simp add: sha_name_def lit_simps)
  with assms(1) show ?thesis by (metis eq_ignore_ascii_case_def slash_lower)
qed

lemma cas_ok_only_partial:
  "only_at (partial_path dir d) w w' \<Longrightarrow> cas_ok L l (fs w) \<Longrightarrow> cas_ok L l (fs w')"
  by (simp add: only_at_def cas_ok_def blob_not_partial_loc)

text \<open>The rename that publishes a verified blob under its name.\<close>

lemma cas_ok_rename_verified:
  assumes ren: "rename_file (partial_path dir d) (blob_path dir d) w1 = (Inr v, w2)"
    and b: "fs_get (fs w1) (loc_of (cwd w1) (partial_path dir d)) = Some (File b)"
    and ver: "eq_ignore_ascii_case d (sha_name L (sha_digest L b))"
    and "cas_ok L l (fs w1)" and hex: "hex_digits L"
  shows "cas_ok L l (fs w2)"
proof -
  have "loc_of (cwd w1) (blob_path dir d) = loc_of (cwd w1) dir @ [replace_char c_colon c_dash d @ str ''.blob'']"
    by (rule loc_blob_plain [OF verified_no_slash [OF ver hex]])
  then show ?thesis
    using rename_file_Inr [OF ren] b assms(4) eq_ignore_replace [OF ver]
    by (auto simp: cas_ok_def blob_not_partial_loc)
qed

lemma cas_ok_rename:
  assumes pull: "pull_blob_to L c r d (partial_path dir d) w = (Inr u, w1)"
    and ren: "rename_file (partial_path dir d) (blob_path dir d) w1 = (Inr v, w2)"
    and ok: "cas_ok L l (fs w)" and sha: "sha_incremental L" and hex: "hex_digits L"
  shows "cas_ok L l (fs w2)"
proof -
  obtain b where b: "fs_get (fs w1) (loc_of (cwd w) (partial_path dir d)) = Some (File b)"
    and ver: "eq_ignore_ascii_case d (sha_name L (sha_digest L b))"
    using pull_blob_to_Inr [OF pull sha] by blast
  have "cwd w1 = cwd w" by (rule only_at_cwd [OF pull_blob_to_only pull])
  with b have b1: "fs_get (fs w1) (loc_of (cwd w1) (partial_path dir d)) = Some (File b)" by simp
  have "cas_ok L l (fs w1)"
    by (rule cas_ok_only_partial [OF staysD' [OF pull_blob_to_only pull] ok])
  with ren b1 ver show ?thesis using hex by (rule cas_ok_rename_verified)
qed

lemma pull_each_cas:
  assumes "pull_each L c r dir layers paths w = (res, w')" and "cas_ok L l (fs w)"
    and "sha_incremental L" and "hex_digits L"
  shows "cas_ok L l (fs w')"
  using assms(1,2)
proof (induction layers arbitrary: paths w)
  case Nil
  then show ?case by simp
next
  case (Cons layer layers)
  let ?d = "lr_digest layer"
  let ?out = "blob_path dir ?d" and ?tmp = "partial_path dir ?d"
  obtain cached w1 where ex: "path_exists ?out w = (Inr cached :: registry_error + bool, w1)"
    by (metis path_exists_not_Inl sumE surj_pair)
  with Cons.prems(2) have ok1: "cas_ok L l (fs w1)" using fs_sameD [OF stays_same_calls(3) ex] by simp
  show ?case
  proof (cases cached)
    case True
    with Cons.prems(1) ex Cons.IH ok1 show ?thesis by (simp add: Let_def)
  next
    case False
    obtain x w2 where pull: "pull_blob_to L c r ?d ?tmp w1 = (x, w2)" by fastforce
    have ok2: "cas_ok L l (fs w2)"
      by (rule cas_ok_only_partial [OF staysD' [OF pull_blob_to_only pull] ok1])
    obtain y w3 where ren: "rename_file ?tmp ?out w2 = (y, w3)" by fastforce
    have ok3: "cas_ok L l (fs w3)" if "x = Inr ()"
    proof (cases y)
      case (Inl e)
      with ren ok2 show ?thesis by (simp add: rename_file_Inl)
    next
      case (Inr v)
      with ren pull that show ?thesis using cas_ok_rename ok1 assms(3,4) by blast
    qed
    from Cons.prems(1) ex False pull ren ok2 ok3 Cons.IH show ?thesis
      by (cases x; cases y) (auto simp: Let_def io_bind_def io_map_err_def)
  qed
qed

section \<open>What pulling keeps\<close>

text \<open>
  Pulling never makes a \<open>.blob\<close> entry disappear, and for a name that ends neither in \<open>.blob\<close> nor in
  \<open>.partial\<close> it changes no existing entry and makes no file.
\<close>

definition foreign_name :: "rstr \<Rightarrow> bool" where
  "foreign_name n \<longleftrightarrow> (\<forall>a. n \<noteq> a @ str ''.blob'') \<and> (\<forall>a. n \<noteq> a @ str ''.partial'')"

definition cache_step :: "'x world \<Rightarrow> 'x world \<Rightarrow> bool" where
  "cache_step w w' \<longleftrightarrow>
     cwd w' = cwd w \<and>
     (\<forall>l n. fs_get (fs w) (l @ [n @ str ''.blob'']) \<noteq> None \<longrightarrow>
            fs_get (fs w') (l @ [n @ str ''.blob'']) \<noteq> None) \<and>
     (\<forall>l n. foreign_name n \<and> fs_get (fs w) (l @ [n]) \<noteq> None \<longrightarrow>
            fs_get (fs w') (l @ [n]) = fs_get (fs w) (l @ [n])) \<and>
     (\<forall>l n b. foreign_name n \<and> fs_get (fs w') (l @ [n]) = Some (File b) \<longrightarrow>
            fs_get (fs w) (l @ [n]) = Some (File b))"

interpretation fcache: frame_rel cache_step
proof unfold_locales
  fix u v w :: "'a world"
  show "cache_step w w" by (simp add: cache_step_def)
  assume uv: "cache_step u v" and vw: "cache_step v w"
  have "cwd w = cwd u" using uv vw by (simp add: cache_step_def)
  moreover have "fs_get (fs w) (l @ [n @ str ''.blob'']) \<noteq> None"
    if "fs_get (fs u) (l @ [n @ str ''.blob'']) \<noteq> None" for l n
    using uv vw that unfolding cache_step_def by metis
  moreover have "fs_get (fs w) (l @ [n]) = fs_get (fs u) (l @ [n])"
    if "foreign_name n" "fs_get (fs u) (l @ [n]) \<noteq> None" for l n
    using uv vw that unfolding cache_step_def by metis
  moreover have "fs_get (fs u) (l @ [n]) = Some (File b)"
    if "foreign_name n" "fs_get (fs w) (l @ [n]) = Some (File b)" for l n b
    using uv vw that unfolding cache_step_def by blast
  ultimately show "cache_step u w" unfolding cache_step_def by blast
qed

lemma fs_same_cache: "fs_same v w \<Longrightarrow> cache_step v w"
  by (simp add: fs_same_def cache_step_def)

lemma only_partial_cache: "only_at (partial_path dir d) v w \<Longrightarrow> cache_step v w"
  using loc_partial [of "cwd v" dir d]
  by (auto simp: only_at_def cache_step_def foreign_name_def)

lemma rename_cache: "stays cache_step (rename_file (partial_path dir d) (blob_path dir d))"
proof (rule staysI)
  fix w :: "'x world"
  obtain x w' where ren: "rename_file (partial_path dir d) (blob_path dir d) w = (x, w')" by fastforce
  show "cache_step w (snd (rename_file (partial_path dir d) (blob_path dir d) w))"
  proof (cases x)
    case (Inl e)
    with ren have "fs_same w w'"
      by (metis cwd_calls(6) fs_same_def rename_file_Inl snd_conv)
    with ren show ?thesis by (simp add: fs_same_cache)
  next
    case (Inr u)
    with ren have eq: "rename_file (partial_path dir d) (blob_path dir d) w = (Inr u, w')" by simp
    have cwd: "cwd w' = cwd w" by (metis cwd_calls(6) ren snd_conv)
    have other: "fs_get (fs w') (l @ [n]) = fs_get (fs w) (l @ [n])" if "foreign_name n" for l n
      using rename_file_Inr [OF eq] that loc_partial [of "cwd w" dir d] loc_blob [of "cwd w" dir d]
      by (auto simp: foreign_name_def)
    have blob: "fs_get (fs w') (l @ [n @ str ''.blob'']) \<noteq> None"
      if "fs_get (fs w) (l @ [n @ str ''.blob'']) \<noteq> None" for l n
      using rename_file_Inr [OF eq] rename_file_src [OF eq] that
        blob_not_partial_loc [of l n "cwd w" dir d] by simp
    have "cache_step w w'" unfolding cache_step_def using cwd other blob by metis
    with ren show ?thesis by simp
  qed
qed

lemma create_dir_all_cache: "stays cache_step (create_dir_all p)"
  by (auto simp: stays_def cache_step_def frame_simps create_dir_all_get dest: create_dir_all_file)

lemma pull_each_cache: "stays cache_step (pull_each L c r dir layers paths)"
proof (induction layers arbitrary: paths)
  case Nil
  then show ?case by (simp add: fcache.pair)
next
  case (Cons layer layers)
  have "stays cache_step (path_exists p)" for p
    by (rule stays_mono [OF stays_same_calls(3)]) (rule fs_same_cache)
  moreover have "stays cache_step (pull_blob_to L c r d (partial_path dir d))" for d
    by (rule stays_mono [OF pull_blob_to_only]) (rule only_partial_cache)
  ultimately show ?case
    using Cons.IH rename_cache unfolding pull_each.simps Let_def
    by (auto intro!: fcache.bind)
qed

lemma oci_pull_cache: "stays cache_step (oci_pull_layers L c seed dir)"
proof -
  have "stays cache_step (oci_resolve L c seed)"
    by (rule stays_mono [OF oci_resolve_same]) (rule fs_same_cache)
  then show ?thesis unfolding oci_pull_layers_def
    using create_dir_all_cache pull_each_cache by (auto intro!: fcache.bind fcache.lift)
qed

lemma cache_step_blob:
  assumes "cache_step w w'" and "fs_get (fs w) (loc_of c (blob_path dir d)) \<noteq> None"
  shows "fs_get (fs w') (loc_of c (blob_path dir d)) \<noteq> None"
  using assms loc_blob [of c dir d] unfolding cache_step_def by metis

lemma pull_each_Inr:
  assumes "pull_each L c r dir layers paths w = (Inr ps, w')"
  shows "ps = paths @ map (\<lambda>x. blob_path dir (lr_digest x)) layers \<and>
    (\<forall>x \<in> set layers. fs_get (fs w') (loc_of (cwd w) (blob_path dir (lr_digest x))) \<noteq> None)"
  using assms
proof (induction layers arbitrary: paths w)
  case Nil
  then show ?case by simp
next
  case (Cons x layers)
  let ?out = "blob_path dir (lr_digest x)"
  from Cons.prems obtain w1 where rest: "pull_each L c r dir layers (paths @ [?out]) w1 = (Inr ps, w')"
    and out: "fs_get (fs w1) (loc_of (cwd w) ?out) \<noteq> None" and cwd: "cwd w1 = cwd w"
  proof -
    from Cons.prems obtain cached v where
      ex: "path_exists ?out w = (Inr cached :: registry_error + bool, v)"
      and k: "(if cached then pull_each L c r dir layers (paths @ [?out])
        else io_bind (pull_blob_to L c r (lr_digest x) (partial_path dir (lr_digest x))) (\<lambda>_.
             io_bind (io_map_err Io (rename_file (partial_path dir (lr_digest x)) ?out)) (\<lambda>_.
               pull_each L c r dir layers (paths @ [?out])))) v = (Inr ps, w')"
      by (auto simp: Let_def io_bind_eq_Inr)
    have v: "fs v = fs w" "cwd v = cwd w" using fs_sameD [OF stays_same_calls(3) ex] by auto
    show thesis
    proof (cases cached)
      case True
      with k ex v path_exists_True [of ?out w v] show thesis by (intro that [of v]) auto
    next
      case False
      with k obtain v2 v3 where
        pull: "pull_blob_to L c r (lr_digest x) (partial_path dir (lr_digest x)) v = (Inr (), v2)"
        and ren: "rename_file (partial_path dir (lr_digest x)) ?out v2 = (Inr (), v3)"
        and rest: "pull_each L c r dir layers (paths @ [?out]) v3 = (Inr ps, w')"
        by (auto simp: io_bind_eq_Inr)
      have "cwd v2 = cwd w" using only_at_cwd [OF pull_blob_to_only pull] v by simp
      moreover have "cwd v3 = cwd v2" by (metis cwd_calls(6) ren snd_conv)
      ultimately show thesis
        using rename_file_Inr [OF ren] rename_file_src [OF ren] rest by (intro that [of v3]) auto
    qed
  qed
  from cache_step_blob [OF staysD' [OF pull_each_cache rest] out] Cons.IH [OF rest] cwd
  show ?case by auto
qed

section \<open>The contract of the trait\<close>

text \<open>
  What the services rely on in a registry: resolving and pushing change no local file, and pulling
  returns paths of entries that exist and stay, whatever is pulled later.
\<close>

locale registry_contract =
  fixes R :: "'x registry_ops"
  assumes resolve_same: "stays fs_same (reg_resolve R seed)"
    and push_same: "stays fs_same (reg_push_revision R t p d n)"
    and pull_cache: "stays cache_step (reg_pull_layers R seed dir)"
    and pull_present:
      "reg_pull_layers R seed dir w = (Inr ps, w') \<Longrightarrow> p \<in> set ps \<Longrightarrow>
       (\<exists>d. p = blob_path dir d) \<and> fs_get (fs w') (loc_of (cwd w) p) \<noteq> None"
begin

lemma push_files: "reg_push_revision R t p d n w = (x, w') \<Longrightarrow> fs w' = fs w \<and> cwd w' = cwd w"
  by (rule fs_sameD [OF push_same])

lemma pull_keeps:
  assumes "reg_pull_layers R seed dir w = (x, w')"
    and "fs_get (fs w) (loc_of c (blob_path dir' d)) \<noteq> None"
  shows "fs_get (fs w') (loc_of c (blob_path dir' d)) \<noteq> None"
  using cache_step_blob [OF staysD' [OF pull_cache assms(1)] assms(2)] .

end

lemma oci_pull_Inr:
  assumes "oci_pull_layers L c seed dir w = (Inr ps, w')"
  obtains layers w1 where "oci_resolve L c seed w = (Inr layers, w1)"
    and "ps = map (\<lambda>x. blob_path dir (lr_digest x)) layers"
    and "\<And>x. x \<in> set layers \<Longrightarrow>
      fs_get (fs w') (loc_of (cwd w) (blob_path dir (lr_digest x))) \<noteq> None"
proof -
  from assms obtain r layers w1 w2 where
    res: "oci_resolve L c seed w = (Inr layers, w1)"
    and mk: "create_dir_all dir w1 = (Inr (), w2)"
    and each: "pull_each L c r dir layers [] w2 = (Inr ps, w')"
    by (auto simp: oci_pull_layers_def io_bind_eq_Inr)
  have "cwd w2 = cwd w"
    using fs_sameD [OF oci_resolve_same res] cwd_calls(1) [of dir w1] mk by simp
  with pull_each_Inr [OF each] res show thesis by (intro that) auto
qed

interpretation oci: registry_contract "oci_registry L c" for L c
proof unfold_locales
  fix seed dir w ps w' p
  assume "reg_pull_layers (oci_registry L c) seed dir w = (Inr ps, w')" and p: "p \<in> set ps"
  then have "oci_pull_layers L c seed dir w = (Inr ps, w')" by (simp add: oci_registry_def)
  then show "(\<exists>d. p = blob_path dir d) \<and> fs_get (fs w') (loc_of (cwd w) p) \<noteq> None"
    using p by (auto elim!: oci_pull_Inr)
qed (simp_all add: oci_registry_def oci_pull_cache)

lemma oci_pull_cas:
  fixes L :: "'a oci_libs" and w :: "'b world"
  assumes "sha_incremental L" and "hex_digits L" and "cas_ok L l (fs w)"
  shows "cas_ok L l (fs (snd (oci_pull_layers L c seed dir w)))"
proof -
  let ?P = "\<lambda>w :: 'b world. cas_ok L l (fs w)"
  have "keeps ?P (oci_resolve L c seed)" by (rule keeps_of_same) simp
  moreover have "keeps ?P (create_dir_all dir)"
    by (auto simp: keeps_def cas_ok_def dest: create_dir_all_file)
  moreover have "keeps ?P (pull_each L c r dir layers [])" for r layers
    by (rule keepsI) (rule pull_each_cas [OF prod.collapse [symmetric] _ assms(1,2)])
  ultimately have "keeps ?P (oci_pull_layers L c seed dir)"
    unfolding oci_pull_layers_def by (auto intro!: keeps_bind)
  then show ?thesis using assms(3) by (rule keepsD)
qed

text \<open>Requests as the server sees them: a client whose state ends in the list of requests sent.\<close>

definition traced :: "'x http \<Rightarrow> ('x \<times> http_req list) http" where
  "traced h q s = (case h q (fst s) of (r, x) \<Rightarrow> (r, (x, snd s @ [q])))"

definition head_req :: "'x oci_client \<Rightarrow> rstr \<Rightarrow> rstr \<Rightarrow> rstr \<Rightarrow> http_req" where
  "head_req c reg repo d =
     \<lparr>hq_method = HEAD, hq_url = blob_url c \<lparr>registry = reg, repository = repo, reference = d\<rparr> d,
      hq_headers = [], hq_body = []\<rparr>"

text \<open>The traffic of one blob: it is there already, or it is uploaded in full under its digest.\<close>

definition blob_traffic :: "'x oci_client \<Rightarrow> rstr \<Rightarrow> rstr \<Rightarrow> rstr \<Rightarrow> bytes \<Rightarrow> http_req list \<Rightarrow> bool" where
  "blob_traffic c reg repo d body reqs \<longleftrightarrow>
     reqs = [head_req c reg repo d] \<or>
     (\<exists>location. reqs =
        [head_req c reg repo d,
         \<lparr>hq_method = POST, hq_url = uploads_url c reg repo, hq_headers = [], hq_body = []\<rparr>,
         \<lparr>hq_method = PUT, hq_url = resolve_location c reg location d,
          hq_headers = [(str ''content-type'', str ''application/octet-stream'')], hq_body = body\<rparr>])"

lemma http_send_traced:
  "http_send (traced h) q w = (r, w') \<Longrightarrow> snd (ext w') = snd (ext w) @ [q]"
  by (auto simp: http_send_def traced_def split: prod.splits)

lemma push_blob_traffic:
  assumes "push_blob c reg repo d body w = (Inr u, w')" and "http c = traced h"
  shows "\<exists>reqs. snd (ext w') = snd (ext w) @ reqs \<and> blob_traffic c reg repo d body reqs"
  using assms
  by (auto simp: push_blob_def blob_exists_def Let_def io_bind_eq_Inr blob_traffic_def head_req_def
    split: if_splits dest!: http_send_traced)

lemma oci_push_Inr:
  assumes "oci_push_revision L c t p d n w = (Inr rf, w')"
  obtains r b w1 w2 w3 mb resp where "reference_parse t = Inr r"
    and "read_file p w = (Inr b, w1)" and "word_of_nat (length b) = n"
    and "push_blob c (registry r) (repository r) d b w1 = (Inr (), w2)"
    and "push_blob c (registry r) (repository r) EMPTY_CONFIG_DIGEST EMPTY_CONFIG_BYTES w2 = (Inr (), w3)"
    and "manifest_to_vec L (revision_manifest r d n) = Inr mb"
    and "http_send (http c)
           \<lparr>hq_method = PUT, hq_url = manifest_url c r, hq_headers = [(str ''content-type'', MANIFEST)],
            hq_body = mb\<rparr> w3 = (Inr resp, w')"
    and "is_success (hr_status resp)"
    and "rf = digest_form (registry r) (repository r)
           (case hr_header resp (str ''docker-content-digest'') of
              Some g \<Rightarrow> g | None \<Rightarrow> sha_name L (sha_digest L mb))"
  using assms by (auto simp: oci_push_revision_def Let_def io_bind_eq_Inr split: if_splits)

section \<open>Properties\<close>

text \<open>
  Integrity of the blob cache: pulling a seed keeps the invariant that every \<open>NAME.blob\<close> in any
  directory holds bytes with the digest \<open>NAME\<close>, whether the pull succeeds or fails, for any server,
  any manifest (also one with hostile digests) and any pattern of file-system errors. Bytes that are
  not verified never carry a \<open>.blob\<close> name.
\<close>

lemma pull_layers_cache_integrity:
  fixes L :: "'a oci_libs" and w :: "'b world"
  assumes "sha_incremental L" and "hex_digits L" and "cas_ok L l (fs w)"
  shows "cas_ok L l (fs (snd (oci_pull_layers L c seed dir w)))"
  using assms by (rule oci_pull_cas)

text \<open>Concrete libraries, a one-layer server and a world, for the witnesses.\<close>

definition toy_libs :: "bytes oci_libs" where
  "toy_libs =
     \<lparr>sha_new = [], sha_update = (\<lambda>h b. h @ b), sha_finalize = (\<lambda>h. h), sha_digest = (\<lambda>b. b),
      hex_encode = (\<lambda>b. map (\<lambda>_. 97) b),
      manifest_from_slice =
        (\<lambda>_. Inr \<lparr>wm_layers = [\<lparr>wd_media_type = LAYER_ZSTD, wd_digest = str ''sha256:aa'', wd_size = 2\<rparr>],
                    wm_manifests = []\<rparr>),
      manifest_to_vec = (\<lambda>_. Inr [1, 2, 3])\<rparr>"

definition toy_http :: "unit http" where
  "toy_http q x = (Inr \<lparr>hr_status = 200, hr_header = (\<lambda>_. None), hr_chunks = [Inr [7], Inr [8]]\<rparr>, x)"

definition toy_client :: "unit oci_client" where
  "toy_client = \<lparr>http = toy_http, scheme = str ''https''\<rparr>"

definition toy_world :: "fsys \<Rightarrow> unit world" where
  "toy_world f = \<lparr>fs = f, cwd = [], faults = (\<lambda>_. None), tick = 0, clock = 0, ext = ()\<rparr>"

lemma toy_sha [simp]: "sha_incremental toy_libs"
proof -
  have "foldl (\<lambda>h b. h @ b) a bs = a @ concat bs" for a :: bytes and bs
    by (induction bs arbitrary: a) auto
  from this [of "[]"] show ?thesis by (simp add: sha_incremental_def toy_libs_def)
qed

lemma toy_hex [simp]: "hex_digits toy_libs"
  by (auto simp: hex_digits_def toy_libs_def)

lemma toy_cas [simp]: "cas_ok toy_libs (k @ l) (fs (toy_world []))"
  by (simp add: cas_ok_def toy_world_def fs_get_def)

lemma toy_cas_root [simp]: "cas_ok toy_libs l (fs (toy_world []))"
  using toy_cas [of "[]" l] by simp

lemma pull_layers_cache_integrity_instance:
  "cas_ok toy_libs [str ''d'']
     (fs (snd (oci_pull_layers toy_libs toy_client (str ''r/a'') (str ''/d'') (toy_world []))))"
  by (rule pull_layers_cache_integrity) simp_all

text \<open>
  C21. A successful pull returns, in the order \<open>resolve\<close> gives the layers, one path per layer; each
  exists, and each regular file among them whose digest has no slash holds bytes that match the
  digest of its layer (up to ASCII case and the spelling of the colon).
\<close>

theorem pull_layers_verified:
  fixes L :: "'a oci_libs" and w :: "'b world"
  assumes "sha_incremental L" and "hex_digits L" and "cas_ok L (loc_of (cwd w) dir) (fs w)"
    and "oci_pull_layers L c seed dir w = (Inr ps, w')"
  shows "\<exists>layers w1. oci_resolve L c seed w = (Inr layers, w1) \<and>
    ps = map (\<lambda>x. blob_path dir (lr_digest x)) layers \<and>
    (\<forall>x \<in> set layers.
       let l = loc_of (cwd w) (blob_path dir (lr_digest x))
       in fs_get (fs w') l \<noteq> None \<and>
          (\<forall>b. c_slash \<notin> set (lr_digest x) \<and> fs_get (fs w') l = Some (File b) \<longrightarrow>
             eq_ignore_ascii_case (replace_char c_colon c_dash (lr_digest x))
               (replace_char c_colon c_dash (sha_name L (sha_digest L b)))))"
proof -
  from oci_pull_cas [OF assms(1,2,3), of c seed dir] assms(4)
  have "cas_ok L (loc_of (cwd w) dir) (fs w')" by simp
  with assms(4) show ?thesis
    by (elim oci_pull_Inr) (auto simp: Let_def cas_ok_def loc_blob_plain)
qed

theorem pull_layers_verified_witness:
  "\<exists>layers w1.
     oci_resolve toy_libs toy_client (str ''r/a'') (toy_world []) = (Inr layers, w1) \<and>
     [blob_path (str ''/d'') (str ''sha256:aa'')] = map (\<lambda>x. blob_path (str ''/d'') (lr_digest x)) layers"
proof -
  let ?run = "oci_pull_layers toy_libs toy_client (str ''r/a'') (str ''/d'') (toy_world [])"
  have "fst ?run = Inr [blob_path (str ''/d'') (str ''sha256:aa'')]" by code_simp
  then have "?run = (Inr [blob_path (str ''/d'') (str ''sha256:aa'')], snd ?run)"
    by (metis prod.collapse)
  from pull_layers_verified [OF toy_sha toy_hex toy_cas_root this] show ?thesis
    by (elim exE conjE) (intro exI conjI, assumption, assumption)
qed


definition toy_traced :: "(unit \<times> http_req list) oci_client" where
  "toy_traced = \<lparr>http = traced toy_http, scheme = str ''https''\<rparr>"

definition staged_world :: "(unit \<times> http_req list) world" where
  "staged_world =
     \<lparr>fs = [([str ''s''], File [7, 8])], cwd = [], faults = (\<lambda>_. None), tick = 0, clock = 0,
      ext = ((), [])\<rparr>"


end
