(* ===== verification/Control.thy ===== *)
theory Control
  imports World
begin

text \<open>
  \<open>control.rs\<close>: the client of a mount daemon's control socket and the trait \<open>Capturer\<close>. The socket
  with the daemon behind it (\<open>sock_ops\<close>) and the JSON functions (\<open>ctl_libs\<close>) are parameters.
  Reading a line yields its text, empty at the end of the stream.
\<close>

datatype proto_msg = ProtoEncode rstr | ProtoDecode rstr rstr | ProtoNoData

datatype control_error =
    Connect rstr io_error
  | ControlIo io_error
  | NoResponse
  | Protocol proto_msg
  | Remote rstr

record capture_data =
  cd_out_path :: rstr
  cd_digest :: rstr
  cd_bytes_compressed :: u64
  cd_entries :: u64

record envelope =
  env_ok :: bool
  env_data :: "capture_data option"
  env_error :: "rstr option"

text \<open>The trait \<open>Capturer\<close>.\<close>

record 'x capturer_ops =
  cap_capture :: "path \<Rightarrow> path \<Rightarrow> ('x world, control_error, capture_data) io"

type_synonym json_obj = "(rstr \<times> rstr) list"

record ctl_libs =
  request_to_vec :: "json_obj \<Rightarrow> rstr + bytes"
  envelope_from_str :: "rstr \<Rightarrow> rstr + envelope"

record 'x sock_ops =
  sk_connect :: "path \<Rightarrow> ('x world, io_error, nat) io"
  sk_write_all :: "nat \<Rightarrow> bytes \<Rightarrow> ('x world, io_error, unit) io"
  sk_flush :: "nat \<Rightarrow> ('x world, io_error, unit) io"
  sk_read_line :: "nat \<Rightarrow> ('x world, io_error, rstr) io"

text \<open>The end of \<open>SocketControl::request\<close>: what one response line means.\<close>

definition decode_response :: "ctl_libs \<Rightarrow> rstr \<Rightarrow> control_error + capture_data" where
  "decode_response J resp =
     (if resp = [] then Inl NoResponse
      else case envelope_from_str J (trim resp) of
             Inl e \<Rightarrow> Inl (Protocol (ProtoDecode e (trim resp)))
           | Inr env \<Rightarrow>
               (if \<not> env_ok env
                then Inl (Remote (case env_error env of Some e \<Rightarrow> e | None \<Rightarrow> str ''unspecified error''))
                else ok_or (env_data env) (Protocol ProtoNoData)))"

definition socket_request ::
  "ctl_libs \<Rightarrow> 'x sock_ops \<Rightarrow> path \<Rightarrow> json_obj \<Rightarrow> ('x world, control_error, capture_data) io" where
  "socket_request J S socket req =
     io_bind (io_map_err (Connect socket) (sk_connect S socket)) (\<lambda>conn.
     io_bind (io_lift (res_map_err (\<lambda>e. Protocol (ProtoEncode e)) (request_to_vec J req))) (\<lambda>line.
     io_bind (io_map_err ControlIo (sk_write_all S conn (line @ [10]))) (\<lambda>_.
     io_bind (io_map_err ControlIo (sk_flush S conn)) (\<lambda>_.
     io_bind (io_map_err ControlIo (sk_read_line S conn)) (\<lambda>resp.
       io_lift (decode_response J resp))))))"

definition socket_capture ::
  "ctl_libs \<Rightarrow> 'x sock_ops \<Rightarrow> path \<Rightarrow> path \<Rightarrow> ('x world, control_error, capture_data) io" where
  "socket_capture J S socket out_path =
     socket_request J S socket [(str ''cmd'', str ''capture-layer''), (str ''out_path'', out_path)]"

definition socket_control :: "ctl_libs \<Rightarrow> 'x sock_ops \<Rightarrow> 'x capturer_ops" where
  "socket_control J S = \<lparr>cap_capture = socket_capture J S\<rparr>"

section \<open>The conversation\<close>

text \<open>A socket under observation: each operation appends one event to a log.\<close>

datatype sock_event = EvConnect path | EvWrite nat bytes | EvFlush nat | EvRead nat

definition sock_logs :: "('x \<Rightarrow> sock_event list) \<Rightarrow> 'x sock_ops \<Rightarrow> bool" where
  "sock_logs log S \<longleftrightarrow>
     (\<forall>p w. log (ext (snd (sk_connect S p w))) = log (ext w) @ [EvConnect p]) \<and>
     (\<forall>c b w. log (ext (snd (sk_write_all S c b w))) = log (ext w) @ [EvWrite c b]) \<and>
     (\<forall>c w. log (ext (snd (sk_flush S c w))) = log (ext w) @ [EvFlush c]) \<and>
     (\<forall>c w. log (ext (snd (sk_read_line S c w))) = log (ext w) @ [EvRead c])"

lemma sock_logsD:
  assumes "sock_logs log S"
  shows "sk_connect S p w = (r1, w') \<Longrightarrow> log (ext w') = log (ext w) @ [EvConnect p]"
    and "sk_write_all S c b w = (r2, w') \<Longrightarrow> log (ext w') = log (ext w) @ [EvWrite c b]"
    and "sk_flush S c w = (r2, w') \<Longrightarrow> log (ext w') = log (ext w) @ [EvFlush c]"
    and "sk_read_line S c w = (r3, w') \<Longrightarrow> log (ext w') = log (ext w) @ [EvRead c]"
  using assms unfolding sock_logs_def by (metis snd_conv)+

text \<open>The events of one whole exchange.\<close>

definition exchange :: "path \<Rightarrow> nat \<Rightarrow> bytes \<Rightarrow> sock_event list" where
  "exchange socket conn line =
     [EvConnect socket, EvWrite conn (line @ [10]), EvFlush conn, EvRead conn]"

lemma socket_request_Inr:
  assumes "socket_request J S socket req w = (Inr d, w')"
  obtains conn line resp w1 w2 w3 where "sk_connect S socket w = (Inr conn, w1)"
    and "request_to_vec J req = Inr line"
    and "sk_write_all S conn (line @ [10]) w1 = (Inr (), w2)"
    and "sk_flush S conn w2 = (Inr (), w3)"
    and "sk_read_line S conn w3 = (Inr resp, w')"
    and "decode_response J resp = Inr d"
  using assms by (auto simp: socket_request_def io_bind_eq_Inr)

lemma decode_response_Inr:
  "decode_response J resp = Inr d \<longleftrightarrow>
     resp \<noteq> [] \<and> (\<exists>env. envelope_from_str J (trim resp) = Inr env \<and> env_ok env \<and> env_data env = Some d)"
  by (auto simp: decode_response_def split: if_splits sum.splits)

section \<open>Properties\<close>


definition toy_sock :: "sock_event list sock_ops" where
  "toy_sock =
     \<lparr>sk_connect = (\<lambda>p w. (Inr 3, w\<lparr>ext := ext w @ [EvConnect p]\<rparr>)),
      sk_write_all = (\<lambda>c b w. (Inr (), w\<lparr>ext := ext w @ [EvWrite c b]\<rparr>)),
      sk_flush = (\<lambda>c w. (Inr (), w\<lparr>ext := ext w @ [EvFlush c]\<rparr>)),
      sk_read_line = (\<lambda>c w. (Inr (str ''x''), w\<lparr>ext := ext w @ [EvRead c]\<rparr>))\<rparr>"

definition toy_capture :: capture_data where
  "toy_capture = \<lparr>cd_out_path = str ''/s'', cd_digest = str ''sha256:aa'', cd_bytes_compressed = 2, cd_entries = 1\<rparr>"

definition toy_ctl :: ctl_libs where
  "toy_ctl =
     \<lparr>request_to_vec = (\<lambda>_. Inr [123, 125]),
      envelope_from_str = (\<lambda>_. Inr \<lparr>env_ok = True, env_data = Some toy_capture, env_error = None\<rparr>)\<rparr>"

definition quiet_world :: "'x \<Rightarrow> 'x world" where
  "quiet_world x = \<lparr>fs = [], cwd = [], faults = (\<lambda>_. None), tick = 0, clock = 0, ext = x\<rparr>"


text \<open>
  What one response line of the daemon means, in full: nothing read is \<open>NoResponse\<close>, text that
  does not decode is a protocol error quoting it, an envelope that is not \<open>ok\<close> is the daemon's error
  (or the default text), and \<open>ok\<close> without data is a protocol error, never an empty success.
\<close>

lemma decode_response_outcomes:
  "decode_response J resp = r \<longleftrightarrow>
     resp = [] \<and> r = Inl NoResponse \<or>
     resp \<noteq> [] \<and>
     ((\<exists>e. envelope_from_str J (trim resp) = Inl e \<and> r = Inl (Protocol (ProtoDecode e (trim resp)))) \<or>
      (\<exists>env. envelope_from_str J (trim resp) = Inr env \<and>
         (env_ok env = False \<and> env_error env = None \<and> r = Inl (Remote (str ''unspecified error'')) \<or>
          (\<exists>e. env_ok env = False \<and> env_error env = Some e \<and> r = Inl (Remote e)) \<or>
          env_ok env \<and> env_data env = None \<and> r = Inl (Protocol ProtoNoData) \<or>
          (\<exists>d. env_ok env \<and> env_data env = Some d \<and> r = Inr d))))"
  by (auto simp: decode_response_def ok_or_def split: sum.split option.split if_split)

end
