(* ===== verification/Freeze.thy ===== *)
theory Freeze
  imports Registry Control
begin

text \<open>
  \<open>freeze.rs\<close>: capture the upper of a live volume into a staging file and push it as a revision.
  Shared by the node service (capture at unpublish) and the controller (\<open>CreateSnapshot\<close>). The
  lemmas say what a success and each failure leave behind, for any capturer and any registry that
  keeps the contract \<open>registry_contract\<close>.
\<close>

datatype freeze_error = Capture control_error | Push registry_error

text \<open>The directory of the staging file, made if it can be.\<close>

definition ensure_parent :: "path \<Rightarrow> ('x world, 'e, unit) io" where
  "ensure_parent staging =
     (case path_parent staging of
        Some parent \<Rightarrow> io_ignore (create_dir_all parent)
      | None \<Rightarrow> io_ok ())"

definition freeze_and_push ::
  "'x capturer_ops \<Rightarrow> 'x registry_ops \<Rightarrow> path \<Rightarrow> path \<Rightarrow> rstr \<Rightarrow> ('x world, freeze_error, rstr) io" where
  "freeze_and_push capturer reg socket staging target_ref =
     io_bind (ensure_parent staging) (\<lambda>_.
     io_bind (io_map_err Capture (cap_capture capturer socket staging)) (\<lambda>cap.
     io_bind
       (io_map_err Push
         (reg_push_revision reg target_ref staging (cd_digest cap) (cd_bytes_compressed cap)))
       (\<lambda>pushed.
     io_bind (io_ignore (remove_file staging)) (\<lambda>_. io_ok pushed))))"

section \<open>Outcomes\<close>

text \<open>The directory a call may add to: it changes no entry that exists and writes no file.\<close>

lemma ensure_parent_ok: "ensure_parent p w = (Inr (), snd (ensure_parent p w))"
  by (simp add: ensure_parent_def split: option.split)

lemma ensure_parent_frame [frame_simps]:
  "cwd (snd (ensure_parent p w)) = cwd w" "ext (snd (ensure_parent p w)) = ext w"
  by (simp_all add: ensure_parent_def frame_simps split: option.split)

lemma ensure_parent_get:
  "fs_get (fs w) l \<noteq> None \<Longrightarrow> fs_get (fs (snd (ensure_parent p w))) l = fs_get (fs w) l"
  by (simp add: ensure_parent_def create_dir_all_get split: option.split)

lemma ensure_parent_bind [simp]:
  "io_bind (ensure_parent p) f w = f () (snd (ensure_parent p w :: ('e + unit) \<times> 'x world))"
  by (simp add: ensure_parent_def io_bind_def split: option.split)

lemma ensure_parent_not_Inl [simp]: "ensure_parent p w \<noteq> (Inl e, w')"
  by (simp add: ensure_parent_def split: option.split)

lemma freeze_Inr:
  assumes "freeze_and_push C R socket staging t w = (Inr rf, w')"
  obtains w1 cap w2 w3 where "w1 = snd (ensure_parent staging w :: (freeze_error + unit) \<times> 'x world)"
    and "cap_capture C socket staging w1 = (Inr cap, w2)"
    and "reg_push_revision R t staging (cd_digest cap) (cd_bytes_compressed cap) w2 = (Inr rf, w3)"
    and "w' = snd (remove_file staging w3)"
  using assms by (auto simp: freeze_and_push_def io_bind_eq_Inr)

lemma freeze_Inl:
  assumes "freeze_and_push C R socket staging t w = (Inl err, w')"
  obtains (capture) w1 e where "w1 = snd (ensure_parent staging w :: (freeze_error + unit) \<times> 'x world)"
    and "cap_capture C socket staging w1 = (Inl e, w')" and "err = Capture e"
  | (push) w1 cap w2 e where "w1 = snd (ensure_parent staging w :: (freeze_error + unit) \<times> 'x world)"
    and "cap_capture C socket staging w1 = (Inr cap, w2)"
    and "reg_push_revision R t staging (cd_digest cap) (cd_bytes_compressed cap) w2 = (Inl e, w')"
    and "err = Push e"
  using assms by (auto simp: freeze_and_push_def io_bind_eq_Inl io_map_err_eq_Inl)

context registry_contract
begin

text \<open>A failed push leaves the files as the capture left them; a successful one only tidies up.\<close>

lemma freeze_push_failed:
  assumes "freeze_and_push C R socket staging t w = (Inl (Push e), w')"
  shows "\<exists>w1 cap w2. cap_capture C socket staging w1 = (Inr cap, w2) \<and> fs w' = fs w2"
  using assms by (cases rule: freeze_Inl) (auto dest: push_files)

lemma freeze_tidies:
  assumes "freeze_and_push C R socket staging t w = (Inr rf, w')"
  shows "\<exists>w1 cap w2. cap_capture C socket staging w1 = (Inr cap, w2) \<and> only_at staging w2 w'"
  using assms
proof (cases rule: freeze_Inr)
  case (1 w1 cap w2 w3)
  have "fs_same w2 w3" by (rule staysD' [OF push_same 1(3)])
  moreover have "only_at staging w3 w'" unfolding 1(4) by (rule staysD) simp
  ultimately have "only_at staging w2 w'" by (auto intro: fonly.R_trans fs_same_only)
  with 1(2) show ?thesis by blast
qed

end

lemma freeze_reference:
  assumes "freeze_and_push C (oci_registry L c) socket staging t w = (Inr rf, w')"
  shows "\<exists>r g. reference_parse t = Inr r \<and> rf = digest_form (registry r) (repository r) g \<and>
    (g \<noteq> [] \<longrightarrow> reference_parse rf = Inr (r\<lparr>reference := g\<rparr>))"
  using assms
proof (cases rule: freeze_Inr)
  case (1 w1 cap w2 w3)
  then have "oci_push_revision L c t staging (cd_digest cap) (cd_bytes_compressed cap) w2 = (Inr rf, w3)"
    by (simp add: oci_registry_def)
  then show ?thesis by (elim oci_push_Inr) (auto simp: canonical_parses)
qed

section \<open>Properties\<close>

text \<open>
  A frozen revision is what the daemon captured: when freezing succeeds, the staging file the
  capture left has exactly the reported size, its reported digest is the layer pushed, the result is
  the canonical reference of the pushed manifest in the target's repository and parses as a seed
  (unless the server reports an empty digest), and afterwards nothing but the staging file has
  changed since the capture.
\<close>

lemma freeze_result:
  assumes "freeze_and_push C (oci_registry L c) socket staging t w = (Inr rf, w')"
  shows "\<exists>w1 cap w2 b r g. cap_capture C socket staging w1 = (Inr cap, w2) \<and>
    fs_get (fs w2) (loc_of (cwd w2) staging) = Some (File b) \<and>
    word_of_nat (length b) = cd_bytes_compressed cap \<and>
    reference_parse t = Inr r \<and> rf = digest_form (registry r) (repository r) g \<and>
    (g \<noteq> [] \<longrightarrow> reference_parse rf = Inr (r\<lparr>reference := g\<rparr>)) \<and>
    only_at staging w2 w'"
  using assms
proof (cases rule: freeze_Inr)
  case (1 w1 cap w2 w3)
  from 1(3) have push: "oci_push_revision L c t staging (cd_digest cap) (cd_bytes_compressed cap) w2 = (Inr rf, w3)"
    by (simp add: oci_registry_def)
  then obtain r b g where "reference_parse t = Inr r"
    "fs_get (fs w2) (loc_of (cwd w2) staging) = Some (File b)"
    "word_of_nat (length b) = cd_bytes_compressed cap" "rf = digest_form (registry r) (repository r) g"
    by (elim oci_push_Inr) (use read_file_Inr in blast)
  moreover have "fs_same w2 w3" by (rule staysD' [OF oci_push_same push])
  moreover have "only_at staging w3 w'" unfolding 1(4) by (rule staysD) simp
  ultimately have "\<exists>b r g. fs_get (fs w2) (loc_of (cwd w2) staging) = Some (File b) \<and>
    word_of_nat (length b) = cd_bytes_compressed cap \<and>
    reference_parse t = Inr r \<and> rf = digest_form (registry r) (repository r) g \<and>
    (g \<noteq> [] \<longrightarrow> reference_parse rf = Inr (r\<lparr>reference := g\<rparr>)) \<and> only_at staging w2 w'"
    by (blast intro: canonical_parses fonly.R_trans fs_same_only)
  with 1(2) show ?thesis by blast
qed

definition file_capturer :: "'x capturer_ops" where
  "file_capturer =
     \<lparr>cap_capture = (\<lambda>socket out w.
        (Inr toy_capture, w\<lparr>fs := fs_put (loc_of (cwd w) out) (File [7, 8]) (fs w)\<rparr>))\<rparr>"

lemma freeze_result_instance:
  "\<exists>rf w' w1 cap w2 b r g.
     freeze_and_push file_capturer (oci_registry toy_libs toy_client) (str ''/c'') (str ''/s'') (str ''r/a:t'')
       (toy_world []) = (Inr rf, w') \<and>
     cap_capture file_capturer (str ''/c'') (str ''/s'') w1 = (Inr cap, w2) \<and>
     reference_parse (str ''r/a:t'') = Inr r \<and> rf = digest_form (registry r) (repository r) g \<and>
     only_at (str ''/s'') w2 w'"
proof -
  let ?run = "freeze_and_push file_capturer (oci_registry toy_libs toy_client) (str ''/c'') (str ''/s'')
    (str ''r/a:t'') (toy_world [])"
  have "fst ?run = Inr (str ''r/a@sha256:aaa'')" by code_simp
  then obtain w' where run: "?run = (Inr (str ''r/a@sha256:aaa''), w')" by (rule fst_eqE)
  from freeze_result [OF run] run show ?thesis by blast
qed

text \<open>
  C25. A push that fails loses nothing: the capture has succeeded, and every file, the staging blob
  included, is still as the capture left it.
\<close>

theorem freeze_push_failure_keeps_capture:
  assumes "freeze_and_push C (oci_registry L c) socket staging t w = (Inl (Push e), w')"
  shows "\<exists>w1 cap w2. cap_capture C socket staging w1 = (Inr cap, w2) \<and> fs w' = fs w2"
  using assms by (rule oci.freeze_push_failed)

definition down_client :: "unit oci_client" where
  "down_client = \<lparr>http = (\<lambda>q x. (Inl (HttpError []), x)), scheme = str ''https''\<rparr>"

theorem freeze_push_failure_keeps_capture_witness:
  "\<exists>w' (w1 :: unit world) cap w2.
     freeze_and_push file_capturer (oci_registry toy_libs down_client) (str ''/c'') (str ''/s'') (str ''r/a:t'')
       (toy_world []) = (Inl (Push (Http (HttpError []))), w') \<and>
     cap_capture file_capturer (str ''/c'') (str ''/s'') w1 = (Inr cap, w2) \<and> fs w' = fs w2"
proof -
  let ?run = "freeze_and_push file_capturer (oci_registry toy_libs down_client) (str ''/c'') (str ''/s'')
    (str ''r/a:t'') (toy_world [])"
  have "fst ?run = Inl (Push (Http (HttpError [])))" by code_simp
  then obtain w' where run: "?run = (Inl (Push (Http (HttpError []))), w')" by (rule fst_eqE)
  from freeze_push_failure_keeps_capture [OF run] run show ?thesis by blast
qed

end
