(* ===== verification/Params.thy ===== *)
theory Params
  imports Rust_Str
begin

text \<open>
  \<open>params.rs\<close>: the StorageClass parameters and the volume context that carries them from
  \<open>CreateVolume\<close> to \<open>NodePublishVolume\<close>. A string map is a partial function.

  The contract of the component is a round trip: what \<open>pvc_parse\<close> accepts, \<open>to_volume_context\<close>
  writes in a form that \<open>pvc_parse\<close> reads back unchanged. It rests on the contract of the two flag
  enums (\<open>flag_codec\<close>) and on seeds being free of separators (\<open>params_wf\<close>), which parsing
  establishes.
\<close>

type_synonym ctx = "rstr \<rightharpoonup> rstr"

definition SEED :: rstr where "SEED = str ''seed''"
definition ACCESS_MODE :: rstr where "ACCESS_MODE = str ''accessMode''"
definition LIFECYCLE :: rstr where "LIFECYCLE = str ''lifecycle''"
definition OWNER :: rstr where "OWNER = str ''owner''"
definition CAPTURE_ON_DELETE :: rstr where "CAPTURE_ON_DELETE = str ''captureOnDelete''"
definition CAPTURE_REPO :: rstr where "CAPTURE_REPO = str ''captureRepo''"
definition VOLUME_NAME :: rstr where "VOLUME_NAME = str ''rspacefs.csi.g8.io/volumeName''"

datatype access_mode = Empty | Ro | Rwo | Rwx

fun access_mode_as_flag :: "access_mode \<Rightarrow> rstr" where
  "access_mode_as_flag Empty = str ''empty''"
| "access_mode_as_flag Ro = str ''ro''"
| "access_mode_as_flag Rwo = str ''rwo''"
| "access_mode_as_flag Rwx = str ''rwx''"

definition access_mode_parse :: "rstr \<Rightarrow> access_mode option" where
  "access_mode_parse s =
     (let t = to_ascii_lowercase (trim s)
      in if t = str ''empty'' then Some Empty
         else if t = str ''ro'' \<or> t = str ''readonly'' then Some Ro
         else if t = str ''rwo'' \<or> t = str ''readwriteonce'' then Some Rwo
         else if t = str ''rwx'' \<or> t = str ''readwritemany'' then Some Rwx
         else None)"

datatype lifecycle = Persistent | Ephemeral | EphemeralThenPersistent

fun lifecycle_as_flag :: "lifecycle \<Rightarrow> rstr" where
  "lifecycle_as_flag Persistent = str ''persistent''"
| "lifecycle_as_flag Ephemeral = str ''ephemeral''"
| "lifecycle_as_flag EphemeralThenPersistent = str ''ephemeral-then-persistent''"

definition lifecycle_parse :: "rstr \<Rightarrow> lifecycle option" where
  "lifecycle_parse s =
     (let t = to_ascii_lowercase (trim s)
      in if t = str ''persistent'' then Some Persistent
         else if t = str ''ephemeral'' then Some Ephemeral
         else if t = str ''ephemeral-then-persistent'' \<or> t = str ''ephemeralthenpersistent''
         then Some EphemeralThenPersistent
         else None)"

record pvc_params =
  seeds :: "rstr list"
  access_mode :: "access_mode option"
  lifecycle :: "lifecycle option"
  owner :: "rstr option"
  capture_on_delete :: bool
  capture_repo :: "rstr option"

record param_error =
  pe_key :: rstr
  pe_value :: rstr
  pe_reason :: rstr

definition is_seed_sep :: "rchar \<Rightarrow> bool" where
  "is_seed_sep c \<longleftrightarrow> c = c_comma \<or> c = c_space \<or> c = c_nl \<or> c = c_tab"

definition split_seeds :: "rstr \<Rightarrow> rstr list" where
  "split_seeds s = filter (\<lambda>p. p \<noteq> []) (map trim (split_on is_seed_sep s))"

text \<open>The two \<open>match m.get(KEY)\<close> blocks: an absent key is no value, a bad value an error.\<close>

definition parse_opt :: "(rstr \<Rightarrow> 'a option) \<Rightarrow> rstr \<Rightarrow> rstr \<Rightarrow> ctx \<Rightarrow> param_error + 'a option" where
  "parse_opt f key reason m =
     (case m key of
        Some v \<Rightarrow>
          (case f v of
             Some x \<Rightarrow> Inr (Some x)
           | None \<Rightarrow> Inl \<lparr>pe_key = key, pe_value = v, pe_reason = reason\<rparr>)
      | None \<Rightarrow> Inr None)"

definition truthy :: "rstr \<Rightarrow> bool" where
  "truthy v \<longleftrightarrow> eq_ignore_ascii_case v (str ''true'') \<or> v = str ''1''"

definition pvc_parse :: "ctx \<Rightarrow> param_error + pvc_params" where
  "pvc_parse m =
     (let sds = (case m SEED of Some s \<Rightarrow> split_seeds s | None \<Rightarrow> [])
      in case parse_opt access_mode_parse ACCESS_MODE (str ''expected empty|ro|rwo|rwx'') m of
           Inl e \<Rightarrow> Inl e
         | Inr am \<Rightarrow>
             (case parse_opt lifecycle_parse LIFECYCLE
                     (str ''expected persistent|ephemeral|ephemeral-then-persistent'') m of
                Inl e \<Rightarrow> Inl e
              | Inr lc \<Rightarrow>
                  Inr \<lparr>seeds = sds, access_mode = am, lifecycle = lc, owner = m OWNER,
                       capture_on_delete =
                         (case m CAPTURE_ON_DELETE of Some v \<Rightarrow> truthy v | None \<Rightarrow> False),
                       capture_repo = m CAPTURE_REPO\<rparr>))"

definition insert_opt :: "rstr \<Rightarrow> rstr option \<Rightarrow> ctx \<Rightarrow> ctx" where
  "insert_opt k v c = (case v of Some x \<Rightarrow> c(k \<mapsto> x) | None \<Rightarrow> c)"

definition to_volume_context :: "pvc_params \<Rightarrow> ctx" where
  "to_volume_context p =
     (let c0 = (Map.empty :: ctx);
          c1 = (if seeds p \<noteq> [] then c0(SEED \<mapsto> join_with [c_comma] (seeds p)) else c0);
          c2 = insert_opt ACCESS_MODE (map_option access_mode_as_flag (access_mode p)) c1;
          c3 = insert_opt LIFECYCLE (map_option lifecycle_as_flag (lifecycle p)) c2;
          c4 = insert_opt OWNER (owner p) c3;
          c5 = (if capture_on_delete p then c4(CAPTURE_ON_DELETE \<mapsto> str ''true'') else c4)
      in insert_opt CAPTURE_REPO (capture_repo p) c5)"

text \<open>
  \<open>resolved_capture_repo\<close>, with the byte offsets and slices of the source; the outer \<open>None\<close> is a
  panic in a slice. \<open>seed_repo_bytes\<close> is the part after the early returns.
\<close>

definition seed_repo_bytes :: "rstr \<Rightarrow> rstr option" where
  "seed_repo_bytes seed =
     (let base = (case split_once c_at seed of Some (b, _) \<Rightarrow> b | None \<Rightarrow> seed)
      in case rfind c_slash base of
           Some slash \<Rightarrow>
             (case slice_from (slash + 1) base of
                None \<Rightarrow> None
              | Some tail \<Rightarrow>
                  (case rfind c_colon tail of
                     Some colon \<Rightarrow> slice_to (slash + 1 + colon) base
                   | None \<Rightarrow> Some base))
         | None \<Rightarrow> Some base)"

definition resolved_capture_repo_bytes :: "pvc_params \<Rightarrow> rstr option option" where
  "resolved_capture_repo_bytes p =
     (case capture_repo p of
        Some repo \<Rightarrow> Some (Some repo)
      | None \<Rightarrow>
          (case seeds p of
             [] \<Rightarrow> Some None
           | seed # _ \<Rightarrow> map_option Some (seed_repo_bytes seed)))"

text \<open>The value the callers see (\<open>seed_repo_bytes_eq\<close>: the panic branch is dead).\<close>

definition resolved_capture_repo :: "pvc_params \<Rightarrow> rstr option" where
  "resolved_capture_repo p =
     (case resolved_capture_repo_bytes p of Some r \<Rightarrow> r | None \<Rightarrow> None)"

section \<open>The flag enums\<close>

text \<open>The contract the context relies on: a flag is read back as the value it was written for.\<close>

locale flag_codec =
  fixes as_flag :: "'a \<Rightarrow> rstr"
    and parse :: "rstr \<Rightarrow> 'a option"
  assumes parse_as_flag: "parse (as_flag x) = Some x"
begin

lemma as_flag_inj: "as_flag x = as_flag y \<Longrightarrow> x = y"
  by (metis option.inject parse_as_flag)

lemma parse_opt_written:
  "m key = map_option as_flag v \<Longrightarrow> parse_opt parse key reason m = Inr v"
  by (cases v) (simp_all add: parse_opt_def parse_as_flag)

end

lemma trim_flag:
  "\<forall>c \<in> set s. c = 45 \<or> 97 \<le> c \<and> c \<le> 122 \<Longrightarrow> trim s = s"
  by (rule trim_plain) (auto simp: is_whitespace_def)

lemma lower_flag:
  "\<forall>c \<in> set s. c = 45 \<or> 97 \<le> c \<and> c \<le> 122 \<Longrightarrow> to_ascii_lowercase s = s"
  by (auto simp: to_ascii_lowercase_def ascii_lower_def intro!: map_idI)

lemma access_mode_flag_chars:
  "\<forall>c \<in> set (access_mode_as_flag a). c = 45 \<or> 97 \<le> c \<and> c \<le> 122"
  by (cases a) (simp_all add: lit_simps)

lemma lifecycle_flag_chars:
  "\<forall>c \<in> set (lifecycle_as_flag l). c = 45 \<or> 97 \<le> c \<and> c \<le> 122"
  by (cases l) (simp_all add: lit_simps)

interpretation am: flag_codec access_mode_as_flag access_mode_parse
proof unfold_locales
  fix x
  show "access_mode_parse (access_mode_as_flag x) = Some x"
    unfolding access_mode_parse_def trim_flag [OF access_mode_flag_chars]
      lower_flag [OF access_mode_flag_chars] Let_def
    by (cases x) (simp_all add: lit_simps)
qed

interpretation lc: flag_codec lifecycle_as_flag lifecycle_parse
proof unfold_locales
  fix x
  show "lifecycle_parse (lifecycle_as_flag x) = Some x"
    unfolding lifecycle_parse_def trim_flag [OF lifecycle_flag_chars]
      lower_flag [OF lifecycle_flag_chars] Let_def
    by (cases x) (simp_all add: lit_simps)
qed

section \<open>The keys\<close>

lemmas key_defs = SEED_def ACCESS_MODE_def LIFECYCLE_def OWNER_def CAPTURE_ON_DELETE_def
  CAPTURE_REPO_def VOLUME_NAME_def

definition param_keys :: "rstr set" where
  "param_keys = {SEED, ACCESS_MODE, LIFECYCLE, OWNER, CAPTURE_ON_DELETE, CAPTURE_REPO}"

lemma keys_neq [simp]:
  "SEED \<noteq> ACCESS_MODE" "SEED \<noteq> LIFECYCLE" "SEED \<noteq> OWNER"
  "SEED \<noteq> CAPTURE_ON_DELETE" "SEED \<noteq> CAPTURE_REPO" "SEED \<noteq> VOLUME_NAME"
  "ACCESS_MODE \<noteq> LIFECYCLE" "ACCESS_MODE \<noteq> OWNER" "ACCESS_MODE \<noteq> CAPTURE_ON_DELETE"
  "ACCESS_MODE \<noteq> CAPTURE_REPO" "ACCESS_MODE \<noteq> VOLUME_NAME" "LIFECYCLE \<noteq> OWNER"
  "LIFECYCLE \<noteq> CAPTURE_ON_DELETE" "LIFECYCLE \<noteq> CAPTURE_REPO" "LIFECYCLE \<noteq> VOLUME_NAME"
  "OWNER \<noteq> CAPTURE_ON_DELETE" "OWNER \<noteq> CAPTURE_REPO" "OWNER \<noteq> VOLUME_NAME"
  "CAPTURE_ON_DELETE \<noteq> CAPTURE_REPO" "CAPTURE_ON_DELETE \<noteq> VOLUME_NAME" "CAPTURE_REPO \<noteq> VOLUME_NAME"
  by (simp_all add: key_defs lit_simps)

lemmas keys_neq_sym [simp] = keys_neq [symmetric]

lemma pvc_parse_cong:
  assumes "\<And>k. k \<in> param_keys \<Longrightarrow> m k = m' k"
  shows "pvc_parse m = pvc_parse m'"
proof -
  have eqs: "m SEED = m' SEED" "m ACCESS_MODE = m' ACCESS_MODE" "m LIFECYCLE = m' LIFECYCLE"
    "m OWNER = m' OWNER" "m CAPTURE_ON_DELETE = m' CAPTURE_ON_DELETE"
    "m CAPTURE_REPO = m' CAPTURE_REPO"
    using assms by (simp_all add: param_keys_def)
  show ?thesis unfolding pvc_parse_def parse_opt_def eqs by (rule refl)
qed

lemma volume_name_not_param [simp]: "VOLUME_NAME \<notin> param_keys"
  by (simp add: param_keys_def)

lemma pvc_parse_volume_name [simp]: "pvc_parse (m(VOLUME_NAME \<mapsto> n)) = pvc_parse m"
  by (rule pvc_parse_cong) auto

section \<open>Seeds\<close>

definition seed_ok :: "rstr \<Rightarrow> bool" where
  "seed_ok s \<longleftrightarrow> s \<noteq> [] \<and> trim s = s \<and> (\<forall>c \<in> set s. \<not> is_seed_sep c)"

definition params_wf :: "pvc_params \<Rightarrow> bool" where
  "params_wf p \<longleftrightarrow> (\<forall>s \<in> set (seeds p). seed_ok s)"

lemma split_seeds_ok: "s \<in> set (split_seeds x) \<Longrightarrow> seed_ok s"
  using set_trim by (fastforce simp: split_seeds_def seed_ok_def dest: split_on_pieces)

lemma split_seeds_join:
  assumes "\<forall>s \<in> set ss. seed_ok s"
  shows "split_seeds (join_with [c_comma] ss) = ss"
proof (cases "ss = []")
  case True
  then show ?thesis by (simp add: split_seeds_def trim_def)
next
  case False
  with assms have "split_on is_seed_sep (join_with [c_comma] ss) = ss"
    by (intro split_on_join) (auto simp: seed_ok_def is_seed_sep_def)
  moreover from assms have "map trim ss = ss" by (auto simp: seed_ok_def intro: map_idI)
  moreover from assms have "filter (\<lambda>p. p \<noteq> []) ss = ss" by (auto simp: seed_ok_def filter_id_conv)
  ultimately show ?thesis by (simp add: split_seeds_def)
qed

lemma pvc_parse_wf: "pvc_parse m = Inr p \<Longrightarrow> params_wf p"
  by (auto simp: pvc_parse_def params_wf_def Let_def split: sum.splits option.splits
    dest: split_seeds_ok)

section \<open>The volume context\<close>

lemma insert_opt_app: "insert_opt k v c k' = (if k' = k then (case v of None \<Rightarrow> c k | Some x \<Rightarrow> Some x) else c k')"
  by (auto simp: insert_opt_def split: option.splits)

lemma to_volume_context_lookup:
  "to_volume_context p SEED = (if seeds p = [] then None else Some (join_with [c_comma] (seeds p)))"
  "to_volume_context p ACCESS_MODE = map_option access_mode_as_flag (access_mode p)"
  "to_volume_context p LIFECYCLE = map_option lifecycle_as_flag (lifecycle p)"
  "to_volume_context p OWNER = owner p"
  "to_volume_context p CAPTURE_ON_DELETE = (if capture_on_delete p then Some (str ''true'') else None)"
  "to_volume_context p CAPTURE_REPO = capture_repo p"
  by (simp_all add: to_volume_context_def Let_def insert_opt_app split: option.splits)

lemma to_volume_context_dom: "dom (to_volume_context p) \<subseteq> param_keys"
  by (auto simp: to_volume_context_def Let_def insert_opt_app param_keys_def
    split: option.splits if_splits)

lemma context_roundtrip_wf:
  assumes "params_wf p"
  shows "pvc_parse (to_volume_context p) = Inr p"
proof -
  have seeds: "(case to_volume_context p SEED of Some s \<Rightarrow> split_seeds s | None \<Rightarrow> []) = seeds p"
    using assms by (simp add: to_volume_context_lookup split_seeds_join params_wf_def)
  have true: "truthy (str ''true'')" by (simp add: truthy_def)
  show ?thesis
    unfolding pvc_parse_def Let_def seeds
      am.parse_opt_written [where m = "to_volume_context p", OF to_volume_context_lookup(2)]
      lc.parse_opt_written [where m = "to_volume_context p", OF to_volume_context_lookup(3)]
    by (simp add: to_volume_context_lookup true)
qed

section \<open>The capture repository\<close>

text \<open>What the byte offsets compute: the part before the first \<open>@\<close>, without the tag of its last
  segment; without a slash nothing is dropped.\<close>

definition drop_tag :: "rstr \<Rightarrow> rstr" where
  "drop_tag b =
     (if c_slash \<in> set b \<and> c_colon \<in> set (rev (takeWhile (\<lambda>c. c \<noteq> c_slash) (rev b)))
      then rev (tl (dropWhile (\<lambda>c. c \<noteq> c_colon) (rev b)))
      else b)"

lemma drop_tag_tagged:
  assumes "c_slash \<notin> set a" and "c_slash \<notin> set t" and "c_colon \<notin> set t"
  shows "drop_tag (d @ c_slash # a @ c_colon # t) = d @ c_slash # a"
proof -
  let ?b = "d @ c_slash # a @ c_colon # t"
  have "takeWhile (\<lambda>c. c \<noteq> c_slash) (rev ?b) = rev t @ c_colon # rev a"
    using assms by (simp add: takeWhile_append)
  moreover have "dropWhile (\<lambda>c. c \<noteq> c_colon) (rev ?b) = c_colon # rev a @ c_slash # rev d"
    using assms by (simp add: dropWhile_append)
  ultimately show ?thesis by (simp add: drop_tag_def)
qed

lemma drop_tag_untagged:
  "c_slash \<notin> set a \<Longrightarrow> c_colon \<notin> set a \<Longrightarrow> drop_tag (d @ c_slash # a) = d @ c_slash # a"
  by (simp add: drop_tag_def takeWhile_append)

lemma drop_tag_no_slash: "c_slash \<notin> set b \<Longrightarrow> drop_tag b = b"
  by (simp add: drop_tag_def)

definition seed_base :: "rstr \<Rightarrow> rstr" where
  "seed_base seed = takeWhile (\<lambda>c. c \<noteq> c_at) seed"

lemma split_once_base:
  "(case split_once c seed of Some (b, _) \<Rightarrow> b | None \<Rightarrow> seed) = takeWhile (\<lambda>x. x \<noteq> c) seed"
  by (induction seed) (auto split: option.splits)

lemma repo_of_base:
  "(case rfind c_slash b of
      Some slash \<Rightarrow>
        (case slice_from (slash + 1) b of
           None \<Rightarrow> None
         | Some tail \<Rightarrow>
             (case rfind c_colon tail of
                Some colon \<Rightarrow> slice_to (slash + 1 + colon) b
              | None \<Rightarrow> Some b))
    | None \<Rightarrow> Some b) = Some (drop_tag b)"
proof (cases "c_slash \<in> set b")
  case False
  then show ?thesis by (simp add: drop_tag_no_slash)
next
  case True
  then obtain d a where da: "b = d @ c_slash # a" "c_slash \<notin> set a" by (metis split_list_last)
  show ?thesis
  proof (cases "c_colon \<in> set a")
    case False
    with da show ?thesis by (simp add: drop_tag_untagged)
  next
    case True
    then obtain x t where xt: "a = x @ c_colon # t" "c_colon \<notin> set t" by (metis split_list_last)
    have "slice_to (byte_len (d @ c_slash # x)) ((d @ c_slash # x) @ c_colon # t) = Some (d @ c_slash # x)"
      by (rule slice_to_app)
    with da xt show ?thesis by (simp add: drop_tag_tagged)
  qed
qed

lemma seed_repo_bytes_eq: "seed_repo_bytes seed = Some (drop_tag (seed_base seed))"
  unfolding seed_repo_bytes_def Let_def split_once_base repo_of_base seed_base_def by (rule refl)

lemma resolved_capture_repo_simps:
  "capture_repo p = Some r \<Longrightarrow> resolved_capture_repo p = Some r"
  "capture_repo p = None \<Longrightarrow> seeds p = [] \<Longrightarrow> resolved_capture_repo p = None"
  "capture_repo p = None \<Longrightarrow> seeds p = s # ss \<Longrightarrow> resolved_capture_repo p = Some (drop_tag (seed_base s))"
  by (simp_all add: resolved_capture_repo_def resolved_capture_repo_bytes_def seed_repo_bytes_eq)

section \<open>Properties\<close>

text \<open>
  C3. The volume context carries the parameters from the controller to the node: whatever
  \<open>PvcParams::parse\<close> accepts, the context written by \<open>to_volume_context\<close> parses back to the same
  parameters, also when the orchestrator adds keys of its own.
\<close>

theorem volume_context_roundtrip:
  assumes "pvc_parse m = Inr p" and "dom extra \<inter> param_keys = {}"
  shows "pvc_parse (to_volume_context p ++ extra) = Inr p"
proof -
  have "pvc_parse (to_volume_context p ++ extra) = pvc_parse (to_volume_context p)"
    using assms(2) by (intro pvc_parse_cong) (auto simp: map_add_def split: option.splits)
  with assms(1) show ?thesis by (simp add: context_roundtrip_wf pvc_parse_wf)
qed

theorem volume_context_roundtrip_witness:
  "pvc_parse (to_volume_context
      \<lparr>seeds = [str ''r/a:1'', str ''r/b''], access_mode = Some Rwo, lifecycle = None,
       owner = None, capture_on_delete = True, capture_repo = None\<rparr> ++ [VOLUME_NAME \<mapsto> str ''db'']) =
   Inr \<lparr>seeds = [str ''r/a:1'', str ''r/b''], access_mode = Some Rwo, lifecycle = None,
        owner = None, capture_on_delete = True, capture_repo = None\<rparr>"
proof (rule volume_context_roundtrip)
  show "pvc_parse [SEED \<mapsto> str ''r/a:1, r/b'', ACCESS_MODE \<mapsto> str '' RWO'', CAPTURE_ON_DELETE \<mapsto> str ''1''] =
    Inr \<lparr>seeds = [str ''r/a:1'', str ''r/b''], access_mode = Some Rwo, lifecycle = None,
        owner = None, capture_on_delete = True, capture_repo = None\<rparr>"
    by (simp add: pvc_parse_def parse_opt_def key_defs lit_simps split_seeds_def is_seed_sep_def trim_def
      is_whitespace_def access_mode_parse_def to_ascii_lowercase_def ascii_lower_def truthy_def
      eq_ignore_ascii_case_def)
  show "dom [VOLUME_NAME \<mapsto> str ''db''] \<inter> param_keys = {}" by (simp add: param_keys_def)
qed


text \<open>
  Deriving the capture repository never panics on its byte offsets, for any parameters and any
  Unicode seed; an explicit \<open>captureRepo\<close> wins, then the first seed without digest and tag, and there
  is none only for a volume with neither.
\<close>

lemma resolved_capture_repo_no_panic:
  "resolved_capture_repo_bytes p = Some (resolved_capture_repo p) \<and>
   resolved_capture_repo p =
     (case capture_repo p of
        Some r \<Rightarrow> Some r
      | None \<Rightarrow> (case seeds p of [] \<Rightarrow> None | s # _ \<Rightarrow> Some (drop_tag (seed_base s))))"
  by (simp add: resolved_capture_repo_def resolved_capture_repo_bytes_def seed_repo_bytes_eq
    split: option.split list.split)

end
