(* ===== verification/Mount.thy ===== *)
theory Mount
  imports World Params
begin

text \<open>
  \<open>mount.rs\<close>: the argument vector of \<open>rspacefs-mount --pvc\<close>, the trait \<open>Mounter\<close> and its
  implementation \<open>RspacefsMounter\<close>. The programs it runs are a parameter: a spawner gives, for a
  program and its arguments, an error of the spawn or an exit with its status and its standard error
  (as text), and may change the world in any way.
\<close>

record mount_spec =
  ms_name :: rstr
  ms_target :: path
  ms_upper :: path
  ms_control_socket :: path
  ms_access_mode :: Params.access_mode
  ms_lifecycle :: Params.lifecycle
  ms_owner :: "rstr option"
  ms_lower_blobs :: "path list"

fun blob_args :: "path list \<Rightarrow> rstr list" where
  "blob_args [] = []"
| "blob_args (b # bs) = str ''--lower-blob'' # b # blob_args bs"

definition mount_args :: "mount_spec \<Rightarrow> rstr list" where
  "mount_args s =
     [str ''--pvc'', str ''--name'', ms_name s]
     @ [str ''--access-mode'', access_mode_as_flag (ms_access_mode s)]
     @ [str ''--lifecycle'', lifecycle_as_flag (ms_lifecycle s)]
     @ blob_args (ms_lower_blobs s)
     @ [str ''--upper'', ms_upper s]
     @ (case ms_owner s of Some ow \<Rightarrow> [str ''--owner'', ow] | None \<Rightarrow> [])
     @ [str ''--control-socket'', ms_control_socket s]
     @ [ms_target s]"

datatype mount_error = MountIo io_error | MountFailed rstr rstr | UnmountFailed rstr

text \<open>The trait \<open>Mounter\<close>.\<close>

record 'x mounter_ops =
  mnt_mount :: "mount_spec \<Rightarrow> ('x world, mount_error, unit) io"
  mnt_unmount :: "path \<Rightarrow> ('x world, mount_error, unit) io"

record proc_output =
  po_success :: bool
  po_status :: rstr
  po_stderr :: rstr

type_synonym 'x spawner = "rstr \<Rightarrow> rstr list \<Rightarrow> ('x world, io_error, proc_output) io"

definition rsp_mount :: "'x spawner \<Rightarrow> path \<Rightarrow> mount_spec \<Rightarrow> ('x world, mount_error, unit) io" where
  "rsp_mount spawn mount_bin spec =
     io_bind (io_map_err MountIo (spawn mount_bin (mount_args spec))) (\<lambda>out.
       if \<not> po_success out then io_err (MountFailed (po_status out) (trim (po_stderr out)))
       else io_ok ())"

definition run_ok :: "'x spawner \<Rightarrow> rstr \<Rightarrow> rstr list \<Rightarrow> ('x world, 'e, bool) io" where
  "run_ok spawn bin args w =
     (case spawn bin args w of
        (Inl _, w') \<Rightarrow> (Inr False, w')
      | (Inr out, w') \<Rightarrow> (Inr (po_success out), w'))"

definition io_or :: "('w, 'e, bool) io \<Rightarrow> ('w, 'e, bool) io \<Rightarrow> ('w, 'e, bool) io" where
  "io_or a b = io_bind a (\<lambda>x. if x then io_ok True else b)"

definition rsp_unmount :: "'x spawner \<Rightarrow> path \<Rightarrow> ('x world, mount_error, unit) io" where
  "rsp_unmount spawn target =
     io_bind (path_exists target) (\<lambda>there.
       if \<not> there then io_ok ()
       else io_bind
              (io_or (io_or (run_ok spawn (str ''fusermount3'') [str ''-u'', target])
                            (run_ok spawn (str ''fusermount'') [str ''-u'', target]))
                     (run_ok spawn (str ''umount'') [target]))
              (\<lambda>ok. if \<not> ok then io_err (UnmountFailed target) else io_ok ()))"

definition rspacefs_mounter :: "'x spawner \<Rightarrow> path \<Rightarrow> 'x mounter_ops" where
  "rspacefs_mounter spawn mount_bin =
     \<lparr>mnt_mount = rsp_mount spawn mount_bin, mnt_unmount = rsp_unmount spawn\<rparr>"

section \<open>The argument vector\<close>

lemma blob_args_inj:
  assumes "blob_args xs @ str ''--upper'' # u = blob_args ys @ str ''--upper'' # v"
  shows "xs = ys \<and> u = v"
  using assms
proof (induction xs arbitrary: ys)
  case Nil
  then show ?case by (cases ys) (auto simp: lit_simps)
next
  case (Cons x xs)
  then show ?case by (cases ys) (auto simp: lit_simps)
qed

lemma owner_args_inj:
  "(case a of Some ow \<Rightarrow> [str ''--owner'', ow] | None \<Rightarrow> []) @ str ''--control-socket'' # u =
   (case b of Some ow \<Rightarrow> [str ''--owner'', ow] | None \<Rightarrow> []) @ str ''--control-socket'' # v
   \<Longrightarrow> a = b \<and> u = v"
  by (auto simp: lit_simps split: option.splits)

lemma mount_args_split:
  "mount_args s =
     str ''--pvc'' # str ''--name'' # ms_name s # str ''--access-mode'' #
     access_mode_as_flag (ms_access_mode s) # str ''--lifecycle'' # lifecycle_as_flag (ms_lifecycle s) #
     blob_args (ms_lower_blobs s) @ str ''--upper'' # ms_upper s #
     (case ms_owner s of Some ow \<Rightarrow> [str ''--owner'', ow] | None \<Rightarrow> []) @
     str ''--control-socket'' # [ms_control_socket s, ms_target s]"
  by (simp add: mount_args_def)

section \<open>The contract of the trait\<close>

text \<open>
  What the node service relies on in a mounter: unmounting where nothing is mounted, on a target
  that does not exist, succeeds and changes nothing outside the call counter.
\<close>

definition idle :: "'x world \<Rightarrow> 'x world \<Rightarrow> bool" where
  "idle w w' \<longleftrightarrow> fs_same w w' \<and> ext w' = ext w"

interpretation fidle: frame_rel idle
  by unfold_locales (auto simp: idle_def fs_same_def)

locale mounter_contract =
  fixes M :: "'x mounter_ops"
  assumes unmount_absent:
    "fs_get (fs w) (loc_of (cwd w) t) = None \<Longrightarrow>
     fst (mnt_unmount M t w) = Inr () \<and> idle w (snd (mnt_unmount M t w))"
begin

lemma unmount_absentE:
  assumes "fs_get (fs w) (loc_of (cwd w) t) = None"
  obtains w' where "mnt_unmount M t w = (Inr (), w')" and "idle w w'"
  using unmount_absent [OF assms] by (metis prod.collapse)

end

lemma stays_idle_exists [simp]: "stays idle (path_exists p)" "stays idle (read_file p)"
  by (simp_all add: stays_def idle_def fs_same_def frame_simps)

lemma path_exists_absent:
  "fs_get (fs w) (loc_of (cwd w) p) = None \<Longrightarrow> path_exists p w = (Inr False, snd (path_exists p w))"
  by (auto simp: path_exists_def metadata_def syscall_def Let_def
    split: option.splits fault.splits prod.splits sum.splits)

lemma path_exists_fault:
  "faults w (tick w) = Some (Fault e k) \<Longrightarrow> path_exists p w = (Inr False, snd (path_exists p w))"
  by (simp add: path_exists_def metadata_def syscall_def Let_def)

lemma rsp_unmount_not_there:
  assumes "path_exists t w = (Inr False :: mount_error + bool, w')"
  shows "rsp_unmount spawn t w = (Inr (), w')"
  by (simp add: rsp_unmount_def io_bind_def [of "path_exists t"] assms)

interpretation rsp: mounter_contract "rspacefs_mounter spawn bin" for spawn bin
proof unfold_locales
  fix w :: "'a world" and t
  assume "fs_get (fs w) (loc_of (cwd w) t) = None"
  then have ex: "path_exists t w = (Inr False, snd (path_exists t w))" by (rule path_exists_absent)
  then have "rsp_unmount spawn t w = (Inr (), snd (path_exists t w :: (mount_error + bool) \<times> 'a world))"
    by (rule rsp_unmount_not_there)
  moreover have "idle w (snd (path_exists t w :: (mount_error + bool) \<times> 'a world))"
    by (rule staysD) simp
  ultimately show "fst (mnt_unmount (rspacefs_mounter spawn bin) t w) = Inr () \<and>
    idle w (snd (mnt_unmount (rspacefs_mounter spawn bin) t w))"
    by (simp add: rspacefs_mounter_def)
qed

section \<open>The programs run\<close>

text \<open>A spawner under observation: each run appends its command line to a log.\<close>

definition logs :: "('x \<Rightarrow> (rstr \<times> rstr list) list) \<Rightarrow> 'x spawner \<Rightarrow> bool" where
  "logs log spawn \<longleftrightarrow>
     (\<forall>bin args w. log (ext (snd (spawn bin args w))) = log (ext w) @ [(bin, args)])"

definition unmount_commands :: "path \<Rightarrow> (rstr \<times> rstr list) list" where
  "unmount_commands t =
     [(str ''fusermount3'', [str ''-u'', t]), (str ''fusermount'', [str ''-u'', t]), (str ''umount'', [t])]"

text \<open>An attempt that runs the given commands in order until one succeeds.\<close>

definition tries ::
  "('x \<Rightarrow> (rstr \<times> rstr list) list) \<Rightarrow> (rstr \<times> rstr list) list \<Rightarrow> ('x world, 'e, bool) io \<Rightarrow> bool" where
  "tries log cmds m \<longleftrightarrow>
     (\<forall>w. \<exists>n v w'. m w = (Inr v, w') \<and> n \<le> length cmds \<and>
        log (ext w') = log (ext w) @ take n cmds \<and> (\<not> v \<longrightarrow> n = length cmds))"

lemma tries_run:
  assumes "logs log spawn"
  shows "tries log [(bin, args)] (run_ok spawn bin args)"
  unfolding tries_def
proof
  fix w
  obtain x v where "spawn bin args w = (x, v)" by fastforce
  moreover have "log (ext (snd (spawn bin args w))) = log (ext w) @ [(bin, args)]"
    using assms by (simp add: logs_def)
  ultimately show "\<exists>n b w'. run_ok spawn bin args w = (Inr b, w') \<and> n \<le> length [(bin, args)] \<and>
    log (ext w') = log (ext w) @ take n [(bin, args)] \<and> (\<not> b \<longrightarrow> n = length [(bin, args)])"
    by (intro exI [of _ 1]) (cases x, auto simp: run_ok_def)
qed

lemma tries_or:
  assumes "tries log xs a" and "tries log ys b"
  shows "tries log (xs @ ys) (io_or a b)"
  unfolding tries_def
proof
  fix w
  from assms(1) obtain n v w1 where a: "a w = (Inr v, w1)" "n \<le> length xs"
    "log (ext w1) = log (ext w) @ take n xs" "\<not> v \<longrightarrow> n = length xs" unfolding tries_def by blast
  from assms(2) obtain k u w2 where b: "b w1 = (Inr u, w2)" "k \<le> length ys"
    "log (ext w2) = log (ext w1) @ take k ys" "\<not> u \<longrightarrow> k = length ys" unfolding tries_def by blast
  show "\<exists>n v w'. io_or a b w = (Inr v, w') \<and> n \<le> length (xs @ ys) \<and>
    log (ext w') = log (ext w) @ take n (xs @ ys) \<and> (\<not> v \<longrightarrow> n = length (xs @ ys))"
  proof (cases v)
    case True
    with a show ?thesis by (intro exI [of _ n]) (auto simp: io_or_def io_bind_def)
  next
    case False
    with a b show ?thesis by (intro exI [of _ "length xs + k"]) (auto simp: io_or_def io_bind_def)
  qed
qed

lemma rsp_unmount_logs:
  assumes "logs log spawn" and "rsp_unmount spawn t w = (r, w')"
  shows "\<exists>n \<le> 3. log (ext w') = log (ext w) @ take n (unmount_commands t) \<and>
    (r = Inr () \<or> n = 3 \<and> r = Inl (UnmountFailed t))"
proof -
  let ?helpers = "io_or (io_or (run_ok spawn (str ''fusermount3'') [str ''-u'', t])
      (run_ok spawn (str ''fusermount'') [str ''-u'', t])) (run_ok spawn (str ''umount'') [t])
    :: ('a world, mount_error, bool) io"
  obtain there w1 where ex: "path_exists t w = (Inr there :: mount_error + bool, w1)"
    by (metis path_exists_not_Inl sumE surj_pair)
  then have ext: "ext w1 = ext w" by (metis path_exists_frame(1) snd_conv)
  have "tries log (unmount_commands t) ?helpers"
    using tries_or [OF tries_or [OF tries_run [OF assms(1)] tries_run [OF assms(1)]] tries_run [OF assms(1)]]
    by (simp add: unmount_commands_def)
  then obtain n v w2 where run: "?helpers w1 = (Inr v, w2)" "n \<le> length (unmount_commands t)"
    "log (ext w2) = log (ext w1) @ take n (unmount_commands t)" "\<not> v \<longrightarrow> n = length (unmount_commands t)"
    unfolding tries_def by blast
  from assms(2) have "(r, w') = (if \<not> there then (Inr (), w1) else
      case ?helpers w1 of (Inl e, w2) \<Rightarrow> (Inl e, w2)
      | (Inr ok, w2) \<Rightarrow> (if \<not> ok then Inl (UnmountFailed t) else Inr (), w2))"
    by (cases "?helpers w1") (auto simp: rsp_unmount_def io_bind_def ex split: sum.splits)
  with run ext show ?thesis
    by (cases there; cases v)
      (auto simp: unmount_commands_def intro: exI [of _ 0] exI [of _ n])
qed

section \<open>Properties\<close>


text \<open>
  Unmounting runs at most three programs, in the order \<open>fusermount3\<close>, \<open>fusermount\<close>, \<open>umount\<close>,
  stops at the first that succeeds, and reports a failure only after all three have failed; a spawn
  that fails counts as a failed attempt.
\<close>

lemma unmount_attempts:
  assumes "logs log spawn" and "rsp_unmount spawn t w = (r, w')"
  shows "\<exists>n \<le> 3. log (ext w') = log (ext w) @ take n (unmount_commands t) \<and>
    (r = Inr () \<or> n = 3 \<and> r = Inl (UnmountFailed t))"
  using assms by (rule rsp_unmount_logs)

definition toy_spawn :: "(rstr \<times> rstr list) list spawner" where
  "toy_spawn bin args w = (Inl NotFound, w\<lparr>ext := ext w @ [(bin, args)]\<rparr>)"

definition mounted_world :: "'x \<Rightarrow> 'x world" where
  "mounted_world x =
     \<lparr>fs = [([str ''t''], Dir)], cwd = [], faults = (\<lambda>_. None), tick = 0, clock = 0, ext = x\<rparr>"

lemma unmount_attempts_instance:
  "\<exists>r w'. rsp_unmount toy_spawn (str ''/t'') (mounted_world []) = (r, w') \<and>
     (\<exists>n \<le> 3. ext w' = take n (unmount_commands (str ''/t'')) \<and>
       (r = Inr () \<or> n = 3 \<and> r = Inl (UnmountFailed (str ''/t''))))"
proof -
  obtain r w' where run: "rsp_unmount toy_spawn (str ''/t'') (mounted_world []) = (r, w')" by fastforce
  have "logs id toy_spawn" by (simp add: logs_def toy_spawn_def)
  from unmount_attempts [OF this run] run show ?thesis by (simp add: mounted_world_def)
qed

text \<open>
  C35. A target that cannot be examined counts as a target that is not there: whatever error the
  existence test meets (a dead FUSE daemon makes it fail on a target that is still mounted),
  unmounting runs no program, changes nothing and reports success.
\<close>

theorem unmount_unexaminable_target:
  assumes "faults w (tick w) = Some (Fault e k)"
  shows "fst (rsp_unmount spawn t w) = Inr () \<and> idle w (snd (rsp_unmount spawn t w))"
proof -
  have "rsp_unmount spawn t w = (Inr (), snd (path_exists t w :: (mount_error + bool) \<times> 'a world))"
    by (rule rsp_unmount_not_there [OF path_exists_fault [OF assms]])
  moreover have "idle w (snd (path_exists t w :: (mount_error + bool) \<times> 'a world))"
    by (rule staysD) simp
  ultimately show ?thesis by simp
qed

theorem unmount_unexaminable_target_witness:
  "fst (rsp_unmount toy_spawn (str ''/t'')
      (mounted_world []\<lparr>faults := \<lambda>_. Some (Fault (OsError 107) None)\<rparr>)) = Inr ()"
  using unmount_unexaminable_target
    [of "mounted_world []\<lparr>faults := \<lambda>_. Some (Fault (OsError 107) None)\<rparr>" "OsError 107" None toy_spawn
        "str ''/t''"]
  by simp

end
