(* ===== verification/Driver.thy ===== *)
theory Driver
  imports Rust_Path
begin

text \<open>
  \<open>driver.rs\<close>: the driver's identity, the role a process runs in, and the layout of the per-volume
  directory tree below the data directory. The lemmas place every per-volume path: for a volume id
  that is a file name proper it lies in the volume's own directory, the directories of two volumes
  share nothing, and an id that is not a file name proper can leave the data directory.
\<close>

definition DRIVER_NAME :: rstr where
  "DRIVER_NAME = str ''rspacefs.csi.g8.io''"

definition DRIVER_VERSION :: rstr where
  "DRIVER_VERSION = str ''0.2.0''"

datatype role = Controller | Node | All

definition serves_controller :: "role \<Rightarrow> bool" where
  "serves_controller r \<longleftrightarrow> (case r of Controller \<Rightarrow> True | All \<Rightarrow> True | Node \<Rightarrow> False)"

definition serves_node :: "role \<Rightarrow> bool" where
  "serves_node r \<longleftrightarrow> (case r of Node \<Rightarrow> True | All \<Rightarrow> True | Controller \<Rightarrow> False)"

record config =
  node_id :: rstr
  data_dir :: path
  capture_registry :: "rstr option"

definition volume_dir :: "config \<Rightarrow> rstr \<Rightarrow> path" where
  "volume_dir cfg volume_id = path_join (path_join (data_dir cfg) (str ''volumes'')) volume_id"

definition upper_dir :: "config \<Rightarrow> rstr \<Rightarrow> path" where
  "upper_dir cfg volume_id = path_join (volume_dir cfg volume_id) (str ''upper'')"

definition lowers_dir :: "config \<Rightarrow> rstr \<Rightarrow> path" where
  "lowers_dir cfg volume_id = path_join (volume_dir cfg volume_id) (str ''lowers'')"

definition control_socket :: "config \<Rightarrow> rstr \<Rightarrow> path" where
  "control_socket cfg volume_id = path_join (volume_dir cfg volume_id) (str ''control.sock'')"

definition capture_staging :: "config \<Rightarrow> rstr \<Rightarrow> path" where
  "capture_staging cfg volume_id = path_join (volume_dir cfg volume_id) (str ''capture.tar.zst'')"

section \<open>Where the paths lie\<close>

lemma plain_literals [simp]:
  "plain_name (str ''volumes'')" "plain_name (str ''upper'')" "plain_name (str ''lowers'')"
  "plain_name (str ''control.sock'')" "plain_name (str ''capture.tar.zst'')"
  "plain_name (str ''publish.json'')"
  by (simp_all add: plain_name_def lit_simps)

lemma loc_volume_dir [simp]:
  "plain_name v \<Longrightarrow> loc_of c (volume_dir cfg v) = loc_of c (data_dir cfg) @ [str ''volumes'', v]"
  by (simp add: volume_dir_def)

lemma loc_volume_paths [simp]:
  "loc_of c (upper_dir cfg v) = loc_of c (volume_dir cfg v) @ [str ''upper'']"
  "loc_of c (lowers_dir cfg v) = loc_of c (volume_dir cfg v) @ [str ''lowers'']"
  "loc_of c (control_socket cfg v) = loc_of c (volume_dir cfg v) @ [str ''control.sock'']"
  "loc_of c (capture_staging cfg v) = loc_of c (volume_dir cfg v) @ [str ''capture.tar.zst'']"
  by (simp_all add: upper_dir_def lowers_dir_def control_socket_def capture_staging_def)

lemma name_literals_differ [simp]:
  "str ''upper'' \<noteq> str ''lowers''" "str ''upper'' \<noteq> str ''control.sock''"
  "str ''upper'' \<noteq> str ''capture.tar.zst''" "str ''upper'' \<noteq> str ''publish.json''"
  "str ''lowers'' \<noteq> str ''control.sock''" "str ''lowers'' \<noteq> str ''capture.tar.zst''"
  "str ''lowers'' \<noteq> str ''publish.json''" "str ''control.sock'' \<noteq> str ''capture.tar.zst''"
  "str ''control.sock'' \<noteq> str ''publish.json''" "str ''capture.tar.zst'' \<noteq> str ''publish.json''"
  by (simp_all add: lit_simps)

lemmas name_literals_differ' [simp] = name_literals_differ [symmetric]

lemma volume_dirs_apart:
  assumes "plain_name u" and "plain_name v" and "u \<noteq> v"
    and "prefix (loc_of c (volume_dir cfg u)) l"
  shows "\<not> prefix (loc_of c (volume_dir cfg v)) l"
  using assms by (auto simp: prefix_def)

end
