(* ===== verification/Csi.thy ===== *)
theory Csi
  imports Freeze Mount Driver
begin

text \<open>
  The gRPC surface: the messages of \<open>proto/csi.proto\<close> with the fields the driver reads or writes,
  and the statuses its handlers return. A status message is kept as the arguments the source formats
  into it; rendering them to text is not modelled. A protobuf \<open>int64\<close> that is only compared is an
  \<open>int\<close>; enum values are their numbers.
\<close>

datatype code = InvalidArgument | FailedPrecondition | Internal | Unimplemented

datatype status_msg =
    Msg rstr
  | ParamMsg param_error
  | SeedMsg rstr registry_error
  | IoMsg rstr io_error
  | MountMsg rstr mount_error
  | FreezeMsg rstr freeze_error
  | NotMounted rstr

record status =
  st_code :: code
  st_msg :: status_msg

abbreviation invalid_argument :: "status_msg \<Rightarrow> status" where
  "invalid_argument m \<equiv> \<lparr>st_code = InvalidArgument, st_msg = m\<rparr>"
abbreviation failed_precondition :: "status_msg \<Rightarrow> status" where
  "failed_precondition m \<equiv> \<lparr>st_code = FailedPrecondition, st_msg = m\<rparr>"
abbreviation internal :: "status_msg \<Rightarrow> status" where
  "internal m \<equiv> \<lparr>st_code = Internal, st_msg = m\<rparr>"
abbreviation unimplemented :: "status_msg \<Rightarrow> status" where
  "unimplemented m \<equiv> \<lparr>st_code = Unimplemented, st_msg = m\<rparr>"

datatype access_type = BlockVolume | MountVolume rstr "rstr list" rstr

record volume_capability =
  vc_access_type :: "access_type option"
  vc_access_mode :: "nat option"

record capacity_range =
  required_bytes :: int
  limit_bytes :: int

datatype content_source = SnapshotSource rstr | VolumeSource rstr

record volume_content_source =
  vcs_type :: "content_source option"

record create_volume_request =
  cv_name :: rstr
  cv_capacity_range :: "capacity_range option"
  cv_volume_capabilities :: "volume_capability list"
  cv_parameters :: ctx
  cv_volume_content_source :: "volume_content_source option"

record volume =
  vol_capacity_bytes :: int
  vol_volume_id :: rstr
  vol_volume_context :: ctx
  vol_content_source :: "volume_content_source option"
  vol_accessible_topology :: "ctx list"

record create_snapshot_request =
  cs_source_volume_id :: rstr
  cs_name :: rstr
  cs_parameters :: ctx

record timestamp =
  ts_seconds :: u64
  ts_nanos :: u32

record snapshot =
  snap_size_bytes :: int
  snap_snapshot_id :: rstr
  snap_source_volume_id :: rstr
  snap_creation_time :: "timestamp option"
  snap_ready_to_use :: bool
  snap_group_snapshot_id :: rstr

record validate_request =
  vv_volume_id :: rstr
  vv_volume_context :: ctx
  vv_volume_capabilities :: "volume_capability list"
  vv_parameters :: ctx

record confirmed =
  cf_volume_context :: ctx
  cf_volume_capabilities :: "volume_capability list"
  cf_parameters :: ctx
  cf_mutable_parameters :: ctx

record node_publish_request =
  np_volume_id :: rstr
  np_target_path :: path
  np_readonly :: bool
  np_volume_context :: ctx

text \<open>Capabilities: the \<open>oneof\<close> with the number (an \<open>i32\<close>) of an RPC type or of a service type. The enums
  are those of \<open>csi.proto\<close>, as far as the driver implements or answers the calls behind them.\<close>

datatype cap_type = RpcCap int | ServiceCap int

record service_capability =
  sc_type :: "cap_type option"

datatype controller_cap_rpc = CapCreateDeleteVolume | CapPublishUnpublishVolume | CapListVolumes
  | CapGetCapacity | CapCreateDeleteSnapshot | CapListSnapshots | CapCloneVolume | CapExpandVolume
  | CapGetVolume | CapModifyVolume

fun controller_cap_number :: "controller_cap_rpc \<Rightarrow> int" where
  "controller_cap_number CapCreateDeleteVolume = 1"
| "controller_cap_number CapPublishUnpublishVolume = 2"
| "controller_cap_number CapListVolumes = 3"
| "controller_cap_number CapGetCapacity = 4"
| "controller_cap_number CapCreateDeleteSnapshot = 5"
| "controller_cap_number CapListSnapshots = 6"
| "controller_cap_number CapCloneVolume = 7"
| "controller_cap_number CapExpandVolume = 9"
| "controller_cap_number CapGetVolume = 12"
| "controller_cap_number CapModifyVolume = 14"

datatype node_cap_rpc = CapStageUnstageVolume | CapGetVolumeStats | CapNodeExpandVolume

fun node_cap_number :: "node_cap_rpc \<Rightarrow> int" where
  "node_cap_number CapStageUnstageVolume = 1"
| "node_cap_number CapGetVolumeStats = 2"
| "node_cap_number CapNodeExpandVolume = 3"

record node_unpublish_request =
  nu_volume_id :: rstr
  nu_target_path :: path

end
