(* ===== verification/Node.thy ===== *)
theory Node
  imports Csi
begin

text \<open>
  \<open>node.rs\<close>: the node service. \<open>node_publish_volume\<close> pulls the seeds, makes the directories, runs
  the mounter and leaves the volume context in \<open>publish.json\<close>; \<open>node_unpublish_volume\<close> reads it
  back, captures the upper first when the context asks for it, and unmounts. The JSON functions for
  the context are a parameter (\<open>ctx_libs\<close>).
\<close>

record 'x node_service =
  ns_cfg :: config
  ns_mounter :: "'x mounter_ops"
  ns_registry :: "'x registry_ops"
  ns_capturer :: "'x capturer_ops"

record ctx_libs =
  ctx_to_vec :: "ctx \<Rightarrow> io_error + bytes"
  ctx_from_slice :: "bytes \<Rightarrow> ctx option"

definition effective_access_mode :: "pvc_params \<Rightarrow> bool \<Rightarrow> Params.access_mode" where
  "effective_access_mode params readonly =
     (if readonly then Ro
      else case access_mode params of
             Some m \<Rightarrow> m
           | None \<Rightarrow> if seeds params = [] then Empty else Rwo)"

definition state_path :: "config \<Rightarrow> rstr \<Rightarrow> path" where
  "state_path cfg volume_id = path_join (volume_dir cfg volume_id) (str ''publish.json'')"

text \<open>\<open>sanitize_tag\<close>, with \<open>truncate\<close> on byte offsets; \<open>None\<close> is its panic.\<close>

definition tag_char :: "rchar \<Rightarrow> bool" where
  "tag_char c \<longleftrightarrow> is_ascii_alphanumeric c \<or> c = c_uscore \<or> c = c_dot \<or> c = c_dash"

definition sanitize_tag_bytes :: "rstr \<Rightarrow> rstr option" where
  "sanitize_tag_bytes s =
     (let out = map (\<lambda>c. if tag_char c then c else c_dash) s
      in case truncate_str 128 out of
           None \<Rightarrow> None
         | Some out \<Rightarrow> Some (if out = [] then str ''rev'' else out))"

text \<open>The value the callers see (\<open>sanitize_tag_bytes_total\<close>: the panic branch is dead).\<close>

definition sanitize_tag :: "rstr \<Rightarrow> rstr" where
  "sanitize_tag s = (case sanitize_tag_bytes s of Some t \<Rightarrow> t | None \<Rightarrow> [])"

section \<open>Simple calls\<close>

record node_info =
  ni_node_id :: rstr
  ni_max_volumes_per_node :: int
  ni_accessible_topology :: "ctx option"

definition node_get_info :: "'x node_service \<Rightarrow> node_info" where
  "node_get_info svc =
     \<lparr>ni_node_id = node_id (ns_cfg svc), ni_max_volumes_per_node = 0, ni_accessible_topology = None\<rparr>"

definition node_cap :: "node_cap_rpc \<Rightarrow> service_capability" where
  "node_cap rpc = \<lparr>sc_type = Some (RpcCap (node_cap_number rpc))\<rparr>"

definition node_get_capabilities :: "service_capability list" where
  "node_get_capabilities = [node_cap CapStageUnstageVolume]"

definition node_stage_volume :: "('x world, status, unit) io" where
  "node_stage_volume = io_ok ()"

definition node_unstage_volume :: "('x world, status, unit) io" where
  "node_unstage_volume = io_ok ()"

datatype node_unsupported = NodeGetVolumeStats | NodeExpandVolume

fun node_unsupported_status :: "node_unsupported \<Rightarrow> status" where
  "node_unsupported_status NodeGetVolumeStats =
     unimplemented (Msg (str ''GET_VOLUME_STATS is not advertised''))"
| "node_unsupported_status NodeExpandVolume =
     unimplemented (Msg (str ''EXPAND_VOLUME is not advertised''))"

section \<open>The publish state\<close>

definition persist_state :: "ctx_libs \<Rightarrow> config \<Rightarrow> rstr \<Rightarrow> ctx \<Rightarrow> ('x world, io_error, unit) io" where
  "persist_state J cfg volume_id c =
     (let path = state_path cfg volume_id
      in io_bind
           (case path_parent path of Some parent \<Rightarrow> create_dir_all parent | None \<Rightarrow> io_ok ())
           (\<lambda>_. io_bind (io_lift (ctx_to_vec J c)) (\<lambda>data. write_file path data)))"

definition load_state :: "ctx_libs \<Rightarrow> config \<Rightarrow> rstr \<Rightarrow> ('x world, 'e, ctx option) io" where
  "load_state J cfg volume_id w =
     (case read_file (state_path cfg volume_id) w of
        (Inl _, w') \<Rightarrow> (Inr None, w')
      | (Inr data, w') \<Rightarrow> (Inr (ctx_from_slice J data), w'))"

section \<open>Publish\<close>

fun pull_seeds ::
  "'x registry_ops \<Rightarrow> path \<Rightarrow> rstr list \<Rightarrow> path list \<Rightarrow> ('x world, status, path list) io" where
  "pull_seeds reg dir [] lower_blobs = io_ok lower_blobs"
| "pull_seeds reg dir (seed # sds) lower_blobs =
     io_bind
       (io_map_err (\<lambda>e. failed_precondition (SeedMsg seed e)) (reg_pull_layers reg seed dir))
       (\<lambda>blobs. pull_seeds reg dir sds (lower_blobs @ blobs))"

definition volume_label :: "ctx \<Rightarrow> rstr \<Rightarrow> rstr" where
  "volume_label c volume_id = (case c VOLUME_NAME of Some n \<Rightarrow> n | None \<Rightarrow> volume_id)"

definition publish_spec :: "config \<Rightarrow> node_publish_request \<Rightarrow> pvc_params \<Rightarrow> path list \<Rightarrow> mount_spec" where
  "publish_spec cfg req params lower_blobs =
     \<lparr>ms_name = volume_label (np_volume_context req) (np_volume_id req),
      ms_target = np_target_path req,
      ms_upper = upper_dir cfg (np_volume_id req),
      ms_control_socket = control_socket cfg (np_volume_id req),
      ms_access_mode = effective_access_mode params (np_readonly req),
      ms_lifecycle = (case lifecycle params of Some l \<Rightarrow> l | None \<Rightarrow> Persistent),
      ms_owner = owner params,
      ms_lower_blobs = lower_blobs\<rparr>"

definition node_publish_volume ::
  "ctx_libs \<Rightarrow> 'x node_service \<Rightarrow> node_publish_request \<Rightarrow> ('x world, status, unit) io" where
  "node_publish_volume J svc req =
     (if np_volume_id req = [] then io_err (invalid_argument (Msg (str ''volume_id is required'')))
      else if np_target_path req = []
      then io_err (invalid_argument (Msg (str ''target_path is required'')))
      else
        io_bind
          (io_lift (res_map_err (\<lambda>e. invalid_argument (ParamMsg e)) (pvc_parse (np_volume_context req))))
          (\<lambda>params.
        io_bind
          (pull_seeds (ns_registry svc) (lowers_dir (ns_cfg svc) (np_volume_id req)) (seeds params) [])
          (\<lambda>lower_blobs.
        io_bind
          (io_map_err (\<lambda>e. internal (IoMsg (str ''create upper'') e))
            (create_dir_all (upper_dir (ns_cfg svc) (np_volume_id req))))
          (\<lambda>_.
        io_bind
          (io_map_err (\<lambda>e. internal (IoMsg (str ''create target'') e))
            (create_dir_all (np_target_path req)))
          (\<lambda>_.
        io_bind
          (io_map_err (\<lambda>e. internal (MountMsg (str ''rspacefs-mount'') e))
            (mnt_mount (ns_mounter svc) (publish_spec (ns_cfg svc) req params lower_blobs)))
          (\<lambda>_.
            io_ignore (persist_state J (ns_cfg svc) (np_volume_id req) (np_volume_context req))))))))"

section \<open>Unpublish\<close>

definition freeze_on_unpublish ::
  "'x node_service \<Rightarrow> rstr \<Rightarrow> ctx \<Rightarrow> pvc_params \<Rightarrow> ('x world, status, unit) io" where
  "freeze_on_unpublish svc volume_id c params =
     io_bind
       (io_lift (ok_or (resolved_capture_repo params)
         (failed_precondition
           (Msg (str ''captureOnDelete set but no captureRepo and no seed to derive one from'')))))
       (\<lambda>repo.
     io_bind
       (io_map_err (\<lambda>e. internal (FreezeMsg (str ''capture-on-delete'') e))
         (freeze_and_push (ns_capturer svc) (ns_registry svc)
           (control_socket (ns_cfg svc) volume_id)
           (capture_staging (ns_cfg svc) volume_id)
           (tag_form repo (sanitize_tag (volume_label c volume_id)))))
       (\<lambda>pushed. io_ok ()))"

text \<open>The block under \<open>if let Some(ctx) = self.load_state(..)\<close>.\<close>

definition capture_if_asked ::
  "'x node_service \<Rightarrow> rstr \<Rightarrow> ctx option \<Rightarrow> ('x world, status, unit) io" where
  "capture_if_asked svc volume_id state =
     (case state of
        None \<Rightarrow> io_ok ()
      | Some c \<Rightarrow>
          (case pvc_parse c of
             Inl _ \<Rightarrow> io_ok ()
           | Inr params \<Rightarrow>
               (if capture_on_delete params then freeze_on_unpublish svc volume_id c params
                else io_ok ())))"

definition node_unpublish_volume ::
  "ctx_libs \<Rightarrow> 'x node_service \<Rightarrow> node_unpublish_request \<Rightarrow> ('x world, status, unit) io" where
  "node_unpublish_volume J svc req =
     (if nu_volume_id req = [] then io_err (invalid_argument (Msg (str ''volume_id is required'')))
      else if nu_target_path req = []
      then io_err (invalid_argument (Msg (str ''target_path is required'')))
      else
        io_bind (load_state J (ns_cfg svc) (nu_volume_id req)) (\<lambda>state.
        io_bind (capture_if_asked svc (nu_volume_id req) state) (\<lambda>_.
        io_bind
          (io_map_err (\<lambda>e. internal (MountMsg (str ''unmount'') e))
            (mnt_unmount (ns_mounter svc) (nu_target_path req)))
          (\<lambda>_.
        io_bind (io_ignore (remove_dir (nu_target_path req))) (\<lambda>_.
          io_ignore (remove_file (state_path (ns_cfg svc) (nu_volume_id req))))))))"

section \<open>Tags\<close>

lemma tag_char_ascii: "tag_char c \<Longrightarrow> c < 128"
  by (auto simp: tag_char_def is_ascii_alphanumeric_def)

lemma truncate_ascii:
  assumes "\<forall>c \<in> set s. c < 128"
  shows "truncate_str n s = Some (take n s)"
proof (cases "n \<le> length s")
  case True
  have "byte_len (take n s) = n" "byte_len s = length s"
    using assms True byte_len_ascii [of "take n s"] byte_len_ascii [of s] by (auto dest: in_set_takeD)
  then show ?thesis
    using slice_to_app [of "take n s" "drop n s"] True by (simp add: truncate_str_def)
next
  case False
  then show ?thesis using assms by (simp add: truncate_str_def byte_len_ascii)
qed

abbreviation tag_map :: "rstr \<Rightarrow> rstr" where
  "tag_map s \<equiv> map (\<lambda>c. if tag_char c then c else c_dash) s"

lemma tag_char_dash [simp]: "tag_char c_dash"
  by (simp add: tag_char_def)

lemma sanitize_tag_bytes_eq:
  "sanitize_tag_bytes s = Some (if s = [] then str ''rev'' else take 128 (tag_map s))"
proof -
  have "\<forall>c \<in> set (tag_map s). c < 128" by (auto dest: tag_char_ascii)
  from truncate_ascii [OF this, of 128] show ?thesis
    by (simp add: sanitize_tag_bytes_def Let_def)
qed

lemma sanitize_tag_eq: "sanitize_tag s = (if s = [] then str ''rev'' else take 128 (tag_map s))"
  by (simp add: sanitize_tag_def sanitize_tag_bytes_eq)

lemma sanitize_tag_bytes_total: "sanitize_tag_bytes s = Some (sanitize_tag s)"
  by (simp add: sanitize_tag_eq sanitize_tag_bytes_eq)

lemma sanitize_tag_chars: "c \<in> set (sanitize_tag s) \<Longrightarrow> tag_char c"
  by (auto simp: sanitize_tag_eq lit_simps tag_char_def is_ascii_alphanumeric_def
    dest!: in_set_takeD split: if_splits)

lemma sanitize_tag_nonempty [simp]: "sanitize_tag s \<noteq> []"
  by (cases s) (simp_all add: sanitize_tag_eq lit_simps)

lemma sanitize_tag_plain [simp]:
  "c_at \<notin> set (sanitize_tag s)" "c_slash \<notin> set (sanitize_tag s)" "c_colon \<notin> set (sanitize_tag s)"
  using sanitize_tag_chars by (fastforce simp: tag_char_def is_ascii_alphanumeric_def)+

lemma sanitize_tag_id:
  assumes "\<forall>c \<in> set t. tag_char c" and "t \<noteq> []" and "length t \<le> 128"
  shows "sanitize_tag t = t"
  using assms by (simp add: sanitize_tag_eq map_idI)

section \<open>The publish state\<close>

text \<open>What the node relies on in \<open>serde_json\<close>: what it writes for a string map it reads back.\<close>

definition ctx_codec :: "ctx_libs \<Rightarrow> bool" where
  "ctx_codec J \<longleftrightarrow> (\<forall>c b. ctx_to_vec J c = Inr b \<longrightarrow> ctx_from_slice J b = Some c)"

lemma loc_state_path [simp]:
  "loc_of c (state_path cfg v) = loc_of c (volume_dir cfg v) @ [str ''publish.json'']"
  by (simp add: state_path_def)

lemma load_state_idle [simp]: "stays idle (load_state J cfg v)"
proof (rule staysI)
  fix w
  have "idle w (snd (read_file (state_path cfg v) w))" by (rule staysD) simp
  then show "idle w (snd (load_state J cfg v w))"
    by (auto simp: load_state_def split: prod.splits sum.splits)
qed

lemma load_state_not_Inl [simp]: "load_state J cfg v w \<noteq> (Inl e, w')"
  by (auto simp: load_state_def split: prod.splits sum.splits)

lemma read_file_no_fault:
  assumes "fs_get (fs w) (loc_of (cwd w) p) = Some (File b)" and "faults w (tick w) = None"
  shows "read_file p w = (Inr b, w\<lparr>tick := Suc (tick w)\<rparr>)"
  using assms by (simp add: read_file_def syscall_def Let_def fs_read_def)

lemma load_state_present:
  assumes "fs_get (fs w) (loc_of (cwd w) (state_path cfg v)) = Some (File b)"
    and "faults w (tick w) = None"
  shows "load_state J cfg v w = (Inr (ctx_from_slice J b), w\<lparr>tick := Suc (tick w)\<rparr>)"
  using read_file_no_fault [OF assms] by (simp add: load_state_def)

lemma load_state_absent:
  assumes "fs_get (fs w) (loc_of (cwd w) (state_path cfg v)) = None"
  shows "fst (load_state J cfg v w) = Inr None"
proof -
  have "fst (read_file (state_path cfg v) w) \<noteq> Inr b" for b
    using assms by (metis option.distinct(1) prod.collapse read_file_Inr)
  then show ?thesis by (auto simp: load_state_def split: prod.splits sum.splits) blast
qed

lemma persist_state_Inr:
  assumes "persist_state J cfg v c w = (Inr u, w')"
  shows "\<exists>b. ctx_to_vec J c = Inr b \<and>
    fs_get (fs w') (loc_of (cwd w) (state_path cfg v)) = Some (File b) \<and> cwd w' = cwd w"
proof -
  from assms obtain b w1 where b: "ctx_to_vec J c = Inr b"
    and w1: "(case path_parent (state_path cfg v) of Some p \<Rightarrow> create_dir_all p | None \<Rightarrow> io_ok ()) w = (Inr (), w1)"
    and wr: "write_file (state_path cfg v) b w1 = (Inr u, w')"
    by (auto simp: persist_state_def Let_def io_bind_eq_Inr)
  have "cwd w1 = cwd w"
    using w1 cwd_calls(1) [of _ w] by (cases "path_parent (state_path cfg v)") (auto, metis snd_conv)
  moreover have "cwd w' = cwd w1" using cwd_calls(3) [of "state_path cfg v" b w1] wr by simp
  ultimately show ?thesis using b write_file_Inr [OF wr] by simp
qed

lemma persist_state_faults: "faults (snd (persist_state J cfg v c w)) = faults w"
proof -
  let ?P = "\<lambda>u. faults u = faults w"
  have "keeps ?P (create_dir_all p)" "keeps ?P (write_file p b)" for p b
    by (simp_all add: keeps_def frame_simps)
  then have "keeps ?P (persist_state J cfg v c)"
    unfolding persist_state_def Let_def
    by (cases "path_parent (state_path cfg v)") (auto intro!: keeps_bind)
  then show ?thesis by (rule keepsD) simp
qed

section \<open>Publish\<close>

lemma node_publish_Inr:
  assumes "node_publish_volume J svc req w = (Inr u, w')"
  obtains params blobs w1 w2 w3 w4 where "np_volume_id req \<noteq> []" and "np_target_path req \<noteq> []"
    and "pvc_parse (np_volume_context req) = Inr params"
    and "pull_seeds (ns_registry svc) (lowers_dir (ns_cfg svc) (np_volume_id req)) (seeds params) [] w
         = (Inr blobs, w1)"
    and "create_dir_all (upper_dir (ns_cfg svc) (np_volume_id req)) w1 = (Inr (), w2)"
    and "create_dir_all (np_target_path req) w2 = (Inr (), w3)"
    and "mnt_mount (ns_mounter svc) (publish_spec (ns_cfg svc) req params blobs) w3 = (Inr (), w4)"
    and "w' = snd (persist_state J (ns_cfg svc) (np_volume_id req) (np_volume_context req) w4)"
  using assms by (auto simp: node_publish_volume_def io_bind_eq_Inr split: if_splits)

lemma path_join_nonempty [simp]: "f \<noteq> [] \<Longrightarrow> path_join d f \<noteq> []"
  by (simp add: path_join_def)

lemma upper_dir_nonempty [simp]: "upper_dir cfg v \<noteq> []"
  by (simp add: upper_dir_def lit_simps)

context registry_contract
begin

lemma pull_seeds_cache: "stays cache_step (pull_seeds R dir sds bs)"
proof (induction sds arbitrary: bs)
  case Nil
  then show ?case by (simp add: fcache.pair)
next
  case (Cons seed sds)
  then show ?case by (auto intro!: fcache.bind pull_cache)
qed

lemma pull_seeds_present:
  assumes "pull_seeds R dir sds bs w = (Inr ps, w')"
  shows "\<exists>qs. ps = bs @ qs \<and>
    (\<forall>p \<in> set qs. (\<exists>d. p = blob_path dir d) \<and> fs_get (fs w') (loc_of (cwd w) p) \<noteq> None)"
  using assms
proof (induction sds arbitrary: bs w)
  case Nil
  then show ?case by simp
next
  case (Cons seed sds)
  from Cons.prems obtain xs w1 where pull: "reg_pull_layers R seed dir w = (Inr xs, w1)"
    and rest: "pull_seeds R dir sds (bs @ xs) w1 = (Inr ps, w')"
    by (auto simp: io_bind_eq_Inr)
  have cwd: "cwd w1 = cwd w" using staysD' [OF pull_cache pull] by (simp add: cache_step_def)
  have step: "cache_step w1 w'" by (rule staysD' [OF pull_seeds_cache rest])
  have "(\<exists>d. p = blob_path dir d) \<and> fs_get (fs w') (loc_of (cwd w) p) \<noteq> None" if "p \<in> set xs" for p
    using pull_present [OF pull that] cache_step_blob [OF step] by blast
  moreover obtain qs where "ps = (bs @ xs) @ qs"
    "\<forall>p \<in> set qs. (\<exists>d. p = blob_path dir d) \<and> fs_get (fs w') (loc_of (cwd w1) p) \<noteq> None"
    using Cons.IH [OF rest] by blast
  ultimately show ?case using cwd by (intro exI [of _ "xs @ qs"]) auto
qed

text \<open>When the mounter runs, everything it is given is in place.\<close>

lemma publish_in_place:
  assumes pull: "pull_seeds R dir sds [] w = (Inr blobs, w1)"
    and up: "create_dir_all upper w1 = (Inr (), w2)" and tg: "create_dir_all target w2 = (Inr (), w3)"
    and ne: "upper \<noteq> []" "target \<noteq> []"
  shows "fs_get (fs w3) (loc_of (cwd w) upper) = Some Dir \<and>
    fs_get (fs w3) (loc_of (cwd w) target) = Some Dir \<and>
    (\<forall>p \<in> set blobs. (\<exists>d. p = blob_path dir d) \<and> fs_get (fs w3) (loc_of (cwd w) p) \<noteq> None)"
proof -
  have c1: "cwd w1 = cwd w" using staysD' [OF pull_seeds_cache pull] by (simp add: cache_step_def)
  have c2: "cwd w2 = cwd w1" using cwd_calls(1) [of upper w1] up by simp
  have keep1: "fs_get (fs w2) l = fs_get (fs w1) l" if "fs_get (fs w1) l \<noteq> None" for l
    using create_dir_all_get [of w1 l upper] up that by simp
  have keep2: "fs_get (fs w3) l = fs_get (fs w2) l" if "fs_get (fs w2) l \<noteq> None" for l
    using create_dir_all_get [of w2 l target] tg that by simp
  have "fs_get (fs w2) (loc_of (cwd w) upper) = Some Dir"
    using create_dir_all_Inr [OF up ne(1)] c1 by simp
  then have "fs_get (fs w3) (loc_of (cwd w) upper) = Some Dir" using keep2 by simp
  moreover have "fs_get (fs w3) (loc_of (cwd w) target) = Some Dir"
    using create_dir_all_Inr [OF tg ne(2)] c1 c2 by simp
  moreover have "(\<exists>d. p = blob_path dir d) \<and> fs_get (fs w3) (loc_of (cwd w) p) \<noteq> None"
    if "p \<in> set blobs" for p
    using pull_seeds_present [OF pull] that keep1 keep2 by fastforce
  ultimately show ?thesis by blast
qed

end

lemma pull_seeds_layers:
  assumes "pull_seeds (oci_registry L c) dir sds bs w = (Inr ps, w')"
  shows "\<exists>lss. list_all2 (\<lambda>seed ls. \<exists>v v'. oci_resolve L c seed v = (Inr ls, v')) sds lss \<and>
    ps = bs @ concat (map (map (\<lambda>x. blob_path dir (lr_digest x))) lss)"
  using assms
proof (induction sds arbitrary: bs w)
  case Nil
  then show ?case by simp
next
  case (Cons seed sds)
  from Cons.prems obtain xs w1 where pull: "oci_pull_layers L c seed dir w = (Inr xs, w1)"
    and rest: "pull_seeds (oci_registry L c) dir sds (bs @ xs) w1 = (Inr ps, w')"
    by (auto simp: io_bind_eq_Inr oci_registry_def)
  from pull obtain ls v where "oci_resolve L c seed w = (Inr ls, v)"
    and "xs = map (\<lambda>x. blob_path dir (lr_digest x)) ls" by (rule oci_pull_Inr)
  moreover from Cons.IH [OF rest] obtain lss where
    "list_all2 (\<lambda>seed ls. \<exists>v v'. oci_resolve L c seed v = (Inr ls, v')) sds lss"
    "ps = (bs @ xs) @ concat (map (map (\<lambda>x. blob_path dir (lr_digest x))) lss)" by blast
  ultimately show ?case by (intro exI [of _ "ls # lss"]) auto
qed

lemma pull_seeds_cas:
  assumes "sha_incremental L" and "hex_digits L"
  shows "keeps (\<lambda>w :: 'x world. cas_ok L l (fs w)) (pull_seeds (oci_registry L c) dir sds bs)"
proof (induction sds arbitrary: bs)
  case (Cons seed sds)
  have "keeps (\<lambda>w :: 'x world. cas_ok L l (fs w)) (reg_pull_layers (oci_registry L c) seed dir)"
    using oci_pull_cas [OF assms] by (auto simp: keeps_def oci_registry_def)
  with Cons show ?case by (auto intro!: keeps_bind)
qed simp

section \<open>Unpublish\<close>

lemma freeze_on_unpublish_Inr:
  assumes "freeze_on_unpublish svc v c params w = (Inr u, w')"
  obtains repo pushed where "resolved_capture_repo params = Some repo"
    and "freeze_and_push (ns_capturer svc) (ns_registry svc) (control_socket (ns_cfg svc) v)
           (capture_staging (ns_cfg svc) v) (tag_form repo (sanitize_tag (volume_label c v))) w
         = (Inr pushed, w')"
  using assms by (auto simp: freeze_on_unpublish_def io_bind_eq_Inr)

text \<open>The handler with the outcome of reading the state known.\<close>

lemma node_unpublish_load:
  assumes "nu_volume_id req \<noteq> []" and "nu_target_path req \<noteq> []"
    and "load_state J (ns_cfg svc) (nu_volume_id req) w = (Inr state :: status + ctx option, w1)"
  shows "node_unpublish_volume J svc req w =
    io_bind (capture_if_asked svc (nu_volume_id req) state) (\<lambda>_.
    io_bind
      (io_map_err (\<lambda>e. internal (MountMsg (str ''unmount'') e))
        (mnt_unmount (ns_mounter svc) (nu_target_path req)))
      (\<lambda>_.
    io_bind (io_ignore (remove_dir (nu_target_path req))) (\<lambda>_.
      io_ignore (remove_file (state_path (ns_cfg svc) (nu_volume_id req)))))) w1"
  using assms(1,2) unfolding node_unpublish_volume_def
  by (subst io_bind_def) (simp add: assms(3))

lemma node_unpublish_Inr:
  assumes "node_unpublish_volume J svc req w = (Inr u, w')"
  obtains state w1 w2 w3 where "nu_volume_id req \<noteq> []" and "nu_target_path req \<noteq> []"
    and "load_state J (ns_cfg svc) (nu_volume_id req) w = (Inr state :: status + ctx option, w1)"
    and "capture_if_asked svc (nu_volume_id req) state w1 = (Inr (), w2)"
    and "mnt_unmount (ns_mounter svc) (nu_target_path req) w2 = (Inr (), w3)"
    and "w' = snd (remove_file (state_path (ns_cfg svc) (nu_volume_id req))
                (snd (remove_dir (nu_target_path req) w3)))"
  using assms by (auto simp: node_unpublish_volume_def io_bind_eq_Inr split: if_splits)

lemma capture_if_asked_simps:
  "capture_if_asked svc v None = io_ok ()"
  "pvc_parse c = Inr params \<Longrightarrow> capture_on_delete params \<Longrightarrow>
   capture_if_asked svc v (Some c) = freeze_on_unpublish svc v c params"
  by (simp_all add: capture_if_asked_def)

lemma remove_absent:
  "fs_get (fs w) (loc_of (cwd w) p) = None \<Longrightarrow> idle w (snd (remove_file p w))"
  "fs_get (fs w) (loc_of (cwd w) p) = None \<Longrightarrow> idle w (snd (remove_dir p w))"
  by (auto simp: idle_def fs_same_def frame_simps remove_file_def remove_dir_def syscall_def Let_def
    fs_remove_file_def fs_remove_dir_def split: option.splits fault.splits)

context mounter_contract
begin

text \<open>Unpublishing what is already unpublished succeeds and changes nothing.\<close>

lemma unpublish_absent:
  assumes "ns_mounter svc = M" and ids: "nu_volume_id req \<noteq> []" "nu_target_path req \<noteq> []"
    and target: "fs_get (fs w) (loc_of (cwd w) (nu_target_path req)) = None"
    and state: "fs_get (fs w) (loc_of (cwd w) (state_path (ns_cfg svc) (nu_volume_id req))) = None"
  shows "fst (node_unpublish_volume J svc req w) = Inr () \<and> idle w (snd (node_unpublish_volume J svc req w))"
proof -
  have "fst (load_state J (ns_cfg svc) (nu_volume_id req) w) = (Inr None :: status + ctx option)"
    by (rule load_state_absent [OF state])
  then obtain w1 where ld: "load_state J (ns_cfg svc) (nu_volume_id req) w = (Inr None :: status + ctx option, w1)"
    by (rule fst_eqE)
  have i1: "idle w w1" by (rule staysD' [OF load_state_idle ld])
  then have t1: "fs_get (fs w1) (loc_of (cwd w1) (nu_target_path req)) = None"
    using target by (simp add: idle_def fs_same_def)
  from unmount_absentE [OF t1] obtain w2 where
    um: "mnt_unmount M (nu_target_path req) w1 = (Inr (), w2)" and i2: "idle w1 w2" .
  let ?w3 = "snd (remove_dir (nu_target_path req) w2)"
  have "idle w2 ?w3" by (rule remove_absent) (use t1 i2 in \<open>simp add: idle_def fs_same_def\<close>)
  then have i3: "idle w ?w3" using i1 i2 by (blast intro: fidle.R_trans)
  have "idle ?w3 (snd (remove_file (state_path (ns_cfg svc) (nu_volume_id req)) ?w3))"
    by (rule remove_absent) (use state i3 in \<open>simp add: idle_def fs_same_def\<close>)
  with i3 have "idle w (snd (remove_file (state_path (ns_cfg svc) (nu_volume_id req)) ?w3))"
    by (rule fidle.R_trans)
  with node_unpublish_load [OF ids ld] um assms(1) show ?thesis
    by (simp add: io_bind_def capture_if_asked_simps)
qed

end

section \<open>Properties\<close>

text \<open>Concrete services and requests, for the witnesses.\<close>

definition toy_cfg :: config where
  "toy_cfg = \<lparr>node_id = str ''n'', data_dir = str ''/d'', capture_registry = Some (str ''q'')\<rparr>"

definition ok_spawn :: "'x spawner" where
  "ok_spawn bin args w = (Inr \<lparr>po_success = True, po_status = [], po_stderr = []\<rparr>, w)"

definition toy_node :: "unit node_service" where
  "toy_node =
     \<lparr>ns_cfg = toy_cfg, ns_mounter = rspacefs_mounter ok_spawn (str ''m''),
      ns_registry = oci_registry toy_libs toy_client, ns_capturer = file_capturer\<rparr>"

definition toy_ctx :: ctx where
  "toy_ctx = [SEED \<mapsto> str ''r/a'', CAPTURE_ON_DELETE \<mapsto> str ''true'']"

definition toy_J :: ctx_libs where
  "toy_J = \<lparr>ctx_to_vec = (\<lambda>_. Inr [1]), ctx_from_slice = (\<lambda>b. if b = [1] then Some toy_ctx else None)\<rparr>"

definition toy_publish :: node_publish_request where
  "toy_publish =
     \<lparr>np_volume_id = str ''v'', np_target_path = str ''/t'', np_readonly = False, np_volume_context = toy_ctx\<rparr>"

definition toy_unpublish :: node_unpublish_request where
  "toy_unpublish = \<lparr>nu_volume_id = str ''v'', nu_target_path = str ''/t''\<rparr>"

definition published_fs :: fsys where
  "published_fs =
     [([str ''d''], Dir), ([str ''d'', str ''volumes''], Dir), ([str ''d'', str ''volumes'', str ''v''], Dir),
      ([str ''d'', str ''volumes'', str ''v'', str ''publish.json''], File [1]), ([str ''t''], Dir)]"

lemma toy_publish_runs:
  obtains w' where "node_publish_volume toy_J toy_node toy_publish (toy_world []) = (Inr (), w')"
proof -
  have "fst (node_publish_volume toy_J toy_node toy_publish (toy_world [])) = Inr ()" by code_simp
  then show thesis using that by (rule fst_eqE)
qed

text \<open>
  C30. \<open>sanitize_tag\<close> never panics in \<open>truncate\<close>, for any Unicode name, and returns a tag of 1 to 128
  characters from \<open>[A-Za-z0-9_.-]\<close> that it leaves unchanged when applied again.
\<close>

theorem sanitize_tag_valid:
  "\<exists>t. sanitize_tag_bytes s = Some t \<and> t \<noteq> [] \<and> length t \<le> 128 \<and> list_all tag_char t \<and>
     sanitize_tag_bytes t = Some t"
proof -
  have "list_all tag_char (sanitize_tag s)" by (simp add: list_all_iff sanitize_tag_chars)
  moreover have len: "length (sanitize_tag s) \<le> 128" by (simp add: sanitize_tag_eq lit_simps)
  moreover have "sanitize_tag (sanitize_tag s) = sanitize_tag s"
    by (rule sanitize_tag_id) (use sanitize_tag_chars len in auto)
  ultimately show ?thesis by (simp add: sanitize_tag_bytes_total)
qed

text \<open>
  C19. A volume is mounted only when everything is in place: if publishing succeeds, the mounter was
  run with exactly the request built from the context, in a world where the upper and the target are
  directories and every lower blob handed to it exists in the volume's own lowers directory; what
  follows the mount is only the attempt to write the publish state.
\<close>

theorem publish_mounts_when_ready:
  assumes "node_publish_volume J svc req w = (Inr (), w')" and "ns_registry svc = oci_registry L c"
  shows "\<exists>params blobs v v'.
    pvc_parse (np_volume_context req) = Inr params \<and>
    mnt_mount (ns_mounter svc) (publish_spec (ns_cfg svc) req params blobs) v = (Inr (), v') \<and>
    fs_get (fs v) (loc_of (cwd w) (upper_dir (ns_cfg svc) (np_volume_id req))) = Some Dir \<and>
    fs_get (fs v) (loc_of (cwd w) (np_target_path req)) = Some Dir \<and>
    (\<forall>p \<in> set blobs. (\<exists>d. p = blob_path (lowers_dir (ns_cfg svc) (np_volume_id req)) d) \<and>
       fs_get (fs v) (loc_of (cwd w) p) \<noteq> None) \<and>
    w' = snd (persist_state J (ns_cfg svc) (np_volume_id req) (np_volume_context req) v')"
  using assms(1)
proof (cases rule: node_publish_Inr)
  case (1 params blobs w1 w2 w3 w4)
  from oci.publish_in_place [OF 1(4) [unfolded assms(2)] 1(5,6) upper_dir_nonempty 1(2)] 1(3,7,8)
  show ?thesis by blast
qed

theorem publish_mounts_when_ready_witness:
  "\<exists>params blobs v v'. pvc_parse toy_ctx = Inr params \<and>
     mnt_mount (ns_mounter toy_node) (publish_spec toy_cfg toy_publish params blobs) v = (Inr (), v') \<and>
     fs_get (fs v) (loc_of [] (str ''/t'')) = Some Dir"
proof -
  obtain w' where "node_publish_volume toy_J toy_node toy_publish (toy_world []) = (Inr (), w')"
    by (rule toy_publish_runs)
  moreover have "ns_registry toy_node = oci_registry toy_libs toy_client" by (simp add: toy_node_def)
  ultimately show ?thesis
    using publish_mounts_when_ready [of toy_J toy_node toy_publish "toy_world []" w' toy_libs toy_client]
    by (auto simp: toy_publish_def toy_world_def toy_node_def)
qed

text \<open>
  C1. The lowers are the layers of the seeds: the blobs handed to the mounter are, seed by seed in
  the order of the parameters and within a seed in the order \<open>resolve\<close> gives the layers, the cache
  paths of their digests; and when the lowers directory was sound before (every \<open>NAME.blob\<close> holds
  bytes of digest \<open>NAME\<close>), it is sound when the mounter runs, so only verified bytes are mounted.
\<close>

theorem publish_mounts_verified_layers:
  fixes w :: "'x world"
  assumes "node_publish_volume J svc req w = (Inr (), w')" and "ns_registry svc = oci_registry L c"
    and "sha_incremental L" and "hex_digits L"
    and "cas_ok L (loc_of (cwd w) (lowers_dir (ns_cfg svc) (np_volume_id req))) (fs w)"
  shows "\<exists>params lss v v'.
    pvc_parse (np_volume_context req) = Inr params \<and>
    list_all2 (\<lambda>seed ls. \<exists>u u'. oci_resolve L c seed u = (Inr ls, u')) (seeds params) lss \<and>
    mnt_mount (ns_mounter svc)
      (publish_spec (ns_cfg svc) req params
        (concat (map (map (\<lambda>x. blob_path (lowers_dir (ns_cfg svc) (np_volume_id req)) (lr_digest x))) lss)))
      v = (Inr (), v') \<and>
    cas_ok L (loc_of (cwd w) (lowers_dir (ns_cfg svc) (np_volume_id req))) (fs v)"
  using assms(1)
proof (cases rule: node_publish_Inr)
  case (1 params blobs w1 w2 w3 w4)
  let ?l = "loc_of (cwd w) (lowers_dir (ns_cfg svc) (np_volume_id req))"
  have mk: "keeps (\<lambda>w :: 'x world. cas_ok L ?l (fs w)) (create_dir_all p)" for p
    by (auto simp: keeps_def cas_ok_def dest: create_dir_all_file)
  have "cas_ok L ?l (fs w1)"
    by (rule keepsD' [OF pull_seeds_cas [OF assms(3,4)] 1(4) [unfolded assms(2)] assms(5)])
  then have "cas_ok L ?l (fs w2)" by (rule keepsD' [OF mk 1(5)])
  then have "cas_ok L ?l (fs w3)" by (rule keepsD' [OF mk 1(6)])
  with pull_seeds_layers [OF 1(4) [unfolded assms(2)]] 1(3,7) show ?thesis by auto
qed

theorem publish_mounts_verified_layers_witness:
  "\<exists>params lss v v'. pvc_parse toy_ctx = Inr params \<and>
     list_all2 (\<lambda>seed ls. \<exists>u u'. oci_resolve toy_libs toy_client seed u = (Inr ls, u')) (seeds params) lss \<and>
     mnt_mount (ns_mounter toy_node)
       (publish_spec toy_cfg toy_publish params
         (concat (map (map (\<lambda>x. blob_path (lowers_dir toy_cfg (str ''v'')) (lr_digest x))) lss)))
       v = (Inr (), v')"
proof -
  obtain w' where run: "node_publish_volume toy_J toy_node toy_publish (toy_world []) = (Inr (), w')"
    by (rule toy_publish_runs)
  have reg: "ns_registry toy_node = oci_registry toy_libs toy_client" by (simp add: toy_node_def)
  from publish_mounts_verified_layers [OF run reg toy_sha toy_hex toy_cas_root]
  show ?thesis by (auto simp: toy_publish_def toy_node_def)
qed

text \<open>
  A publish that fails before the mount never reaches the mounter: unless the status is the
  mounter's own failure, the outcome and the whole world afterwards are the same for every mounter.
\<close>

lemma publish_failure_before_mount:
  assumes "node_publish_volume J svc req w = (Inl st, w')"
    and "\<And>e. st \<noteq> internal (MountMsg (str ''rspacefs-mount'') e)"
  shows "node_publish_volume J (svc\<lparr>ns_mounter := M\<rparr>) req w = (Inl st, w')"
  using assms
  by (auto simp: node_publish_volume_def io_bind_eq_Inl io_map_err_eq_Inl split: if_splits)

definition toy_bad_publish :: node_publish_request where
  "toy_bad_publish = toy_publish\<lparr>np_volume_context := [ACCESS_MODE \<mapsto> str ''w'']\<rparr>"

lemma publish_failure_before_mount_instance:
  "\<exists>st w'. node_publish_volume toy_J (toy_node\<lparr>ns_mounter := \<lparr>mnt_mount = \<lambda>s. io_err (UnmountFailed []),
       mnt_unmount = \<lambda>t. io_ok ()\<rparr>\<rparr>) toy_bad_publish (toy_world []) = (Inl st, w')"
proof -
  let ?st = "invalid_argument (ParamMsg \<lparr>pe_key = ACCESS_MODE, pe_value = str ''w'',
    pe_reason = str ''expected empty|ro|rwo|rwx''\<rparr>)"
  have "node_publish_volume toy_J toy_node toy_bad_publish (toy_world []) = (Inl ?st, toy_world [])"
    by (simp add: node_publish_volume_def toy_bad_publish_def toy_publish_def pvc_parse_def Let_def
      parse_opt_def access_mode_parse_def to_ascii_lowercase_def ascii_lower_def trim_def
      is_whitespace_def lit_simps io_bind_def)
  from publish_failure_before_mount [OF this] show ?thesis by simp
qed

text \<open>
  The access mode on the command line: a read-only publish is mounted \<open>ro\<close> whatever the
  parameters say; otherwise the parameter decides, and without one a volume with seeds is \<open>rwo\<close> and
  one without is \<open>empty\<close>.
\<close>

lemma publish_access_mode:
  "mount_args (publish_spec cfg req params blobs) ! 3 = str ''--access-mode'' \<and>
   mount_args (publish_spec cfg req params blobs) ! 4 =
     (if np_readonly req then str ''ro''
      else case access_mode params of
             Some m \<Rightarrow> access_mode_as_flag m
           | None \<Rightarrow> (if seeds params = [] then str ''empty'' else str ''rwo''))"
  by (simp add: mount_args_split publish_spec_def effective_access_mode_def split: option.split)

text \<open>
  The publish state survives until unpublish: once \<open>persist_state\<close> has succeeded, reading the
  state of that volume yields the same context, in any later world that has the same file and reads
  it without a fault.
\<close>

lemma publish_state_roundtrip:
  assumes "ctx_codec J" and "persist_state J cfg v c w = (Inr (), w1)"
    and "fs_get (fs w2) (loc_of (cwd w) (state_path cfg v)) = fs_get (fs w1) (loc_of (cwd w) (state_path cfg v))"
    and "cwd w2 = cwd w" and "faults w2 (tick w2) = None"
  shows "fst (load_state J cfg v w2) = Inr (Some c)"
proof -
  from persist_state_Inr [OF assms(2)] obtain b where
    "ctx_to_vec J c = Inr b" "fs_get (fs w1) (loc_of (cwd w) (state_path cfg v)) = Some (File b)" by blast
  then have "fs_get (fs w2) (loc_of (cwd w2) (state_path cfg v)) = Some (File b)"
    and "ctx_from_slice J b = Some c" using assms(1,3,4) by (simp_all add: ctx_codec_def)
  then show ?thesis using load_state_present [OF _ assms(5)] by (metis fst_conv)
qed

definition codec_J :: ctx_libs where
  "codec_J = toy_J\<lparr>ctx_to_vec := \<lambda>c. if c = toy_ctx then Inr [1] else Inl InvalidData\<rparr>"

lemma publish_state_roundtrip_instance:
  "fst (load_state codec_J toy_cfg (str ''v'')
      (snd (persist_state codec_J toy_cfg (str ''v'') toy_ctx (toy_world published_fs)))) = Inr (Some toy_ctx)"
proof -
  have codec: "ctx_codec codec_J" by (simp add: ctx_codec_def codec_J_def toy_J_def)
  have eq: "persist_state codec_J toy_cfg (str ''v'') toy_ctx = persist_state toy_J toy_cfg (str ''v'') toy_ctx"
    by (simp add: persist_state_def codec_J_def toy_J_def)
  let ?run = "persist_state codec_J toy_cfg (str ''v'') toy_ctx (toy_world published_fs)"
  have "fst (persist_state toy_J toy_cfg (str ''v'') toy_ctx (toy_world published_fs)) = Inr ()" by code_simp
  then have "fst ?run = Inr ()" by (simp add: eq)
  then obtain w1 where run: "?run = (Inr (), w1)" by (rule fst_eqE)
  have "fst (load_state codec_J toy_cfg (str ''v'') w1) = Inr (Some toy_ctx)"
  proof (rule publish_state_roundtrip [OF codec run refl])
    show "cwd w1 = cwd (toy_world published_fs)" using persist_state_Inr [OF run] by blast
    have "faults (snd ?run) = faults (toy_world published_fs)" unfolding eq by (rule persist_state_faults)
    with run have "faults w1 = faults (toy_world published_fs)" by (simp only: snd_conv)
    then show "faults w1 (tick w1) = None" by (simp add: toy_world_def)
  qed
  with run show ?thesis by simp
qed

text \<open>
  C2. Capture comes before unmount: when a volume whose publish state asks for capture is
  unpublished successfully, its upper was first frozen and pushed, through its own control socket and
  staging file, to the capture repository under the tag of its name, and only in the world that left
  was the target unmounted; the target directory and the publish state are removed last.
\<close>

theorem unpublish_captures_then_unmounts:
  assumes "node_unpublish_volume J svc req w = (Inr (), w')"
    and "load_state J (ns_cfg svc) (nu_volume_id req) w = (Inr (Some c) :: status + ctx option, w1)"
    and "pvc_parse c = Inr params" and "capture_on_delete params"
  shows "\<exists>repo pushed w2 w3.
    resolved_capture_repo params = Some repo \<and>
    freeze_and_push (ns_capturer svc) (ns_registry svc) (control_socket (ns_cfg svc) (nu_volume_id req))
      (capture_staging (ns_cfg svc) (nu_volume_id req))
      (tag_form repo (sanitize_tag (volume_label c (nu_volume_id req)))) w1 = (Inr pushed, w2) \<and>
    mnt_unmount (ns_mounter svc) (nu_target_path req) w2 = (Inr (), w3) \<and>
    w' = snd (remove_file (state_path (ns_cfg svc) (nu_volume_id req))
           (snd (remove_dir (nu_target_path req) w3)))"
  using assms(1)
proof (cases rule: node_unpublish_Inr)
  case (1 state v1 w2 w3)
  with assms(2-4) have "freeze_on_unpublish svc (nu_volume_id req) c params w1 = (Inr (), w2)"
    by (simp add: capture_if_asked_simps)
  from freeze_on_unpublish_Inr [OF this] 1(5,6) show ?thesis by metis
qed

lemma toy_load:
  "load_state toy_J toy_cfg (str ''v'') (toy_world published_fs) =
   (Inr (Some toy_ctx), (toy_world published_fs)\<lparr>tick := 1\<rparr>)"
proof -
  have "fs_get (fs (toy_world published_fs)) (loc_of (cwd (toy_world published_fs)) (state_path toy_cfg (str ''v'')))
    = Some (File [1])" by code_simp
  moreover have "faults (toy_world published_fs) (tick (toy_world published_fs)) = None"
    by (simp add: toy_world_def)
  ultimately show ?thesis by (subst load_state_present) (simp_all add: toy_world_def toy_J_def)
qed

definition toy_params :: pvc_params where
  "toy_params =
     \<lparr>seeds = [str ''r/a''], access_mode = None, lifecycle = None, owner = None,
      capture_on_delete = True, capture_repo = None\<rparr>"

lemma toy_ctx_parse: "pvc_parse toy_ctx = Inr toy_params"
  by (simp add: pvc_parse_def toy_ctx_def toy_params_def parse_opt_def key_defs lit_simps split_seeds_def
    is_seed_sep_def trim_def is_whitespace_def truthy_def eq_ignore_ascii_case_def)

lemma toy_unpublish_simps [simp]:
  "nu_volume_id toy_unpublish = str ''v''" "nu_target_path toy_unpublish = str ''/t''"
  "ns_cfg toy_node = toy_cfg" "capture_on_delete toy_params"
  by (simp_all add: toy_unpublish_def toy_node_def toy_params_def)

theorem unpublish_captures_then_unmounts_witness:
  "\<exists>w' repo pushed w1 w2 w3.
     node_unpublish_volume toy_J toy_node toy_unpublish (toy_world published_fs) = (Inr (), w') \<and>
     resolved_capture_repo toy_params = Some repo \<and>
     freeze_and_push (ns_capturer toy_node) (ns_registry toy_node) (control_socket toy_cfg (str ''v''))
       (capture_staging toy_cfg (str ''v'')) (tag_form repo (sanitize_tag (volume_label toy_ctx (str ''v'')))) w1
       = (Inr pushed, w2) \<and>
     mnt_unmount (ns_mounter toy_node) (str ''/t'') w2 = (Inr (), w3)"
proof -
  have "fst (node_unpublish_volume toy_J toy_node toy_unpublish (toy_world published_fs)) = Inr ()"
    by code_simp
  then obtain w' where run:
    "node_unpublish_volume toy_J toy_node toy_unpublish (toy_world published_fs) = (Inr (), w')"
    by (rule fst_eqE)
  have "load_state toy_J (ns_cfg toy_node) (nu_volume_id toy_unpublish) (toy_world published_fs) =
    (Inr (Some toy_ctx) :: status + ctx option, (toy_world published_fs)\<lparr>tick := 1\<rparr>)"
    by (simp add: toy_load)
  from unpublish_captures_then_unmounts [OF run this toy_ctx_parse toy_unpublish_simps(4)] run
  show ?thesis unfolding toy_unpublish_simps by blast
qed

text \<open>
  C20. A capture that fails keeps the volume: the call fails with the status of the capture, in the
  world the capture left, for every mounter; so nothing is unmounted and the publish state stays for
  the retry.
\<close>

theorem unpublish_capture_failure_keeps_volume:
  assumes "nu_volume_id req \<noteq> []" and "nu_target_path req \<noteq> []"
    and "load_state J (ns_cfg svc) (nu_volume_id req) w = (Inr (Some c) :: status + ctx option, w1)"
    and "pvc_parse c = Inr params" and "capture_on_delete params"
    and "freeze_on_unpublish svc (nu_volume_id req) c params w1 = (Inl st, w2)"
  shows "node_unpublish_volume J (svc\<lparr>ns_mounter := M\<rparr>) req w = (Inl st, w2)"
proof -
  have "load_state J (ns_cfg (svc\<lparr>ns_mounter := M\<rparr>)) (nu_volume_id req) w =
    (Inr (Some c) :: status + ctx option, w1)" using assms(3) by simp
  from node_unpublish_load [OF assms(1,2) this] assms(4-6) show ?thesis
    by (simp add: capture_if_asked_simps freeze_on_unpublish_def io_bind_def)
qed

definition down_node :: "unit node_service" where
  "down_node = toy_node\<lparr>ns_registry := oci_registry toy_libs down_client\<rparr>"

theorem unpublish_capture_failure_keeps_volume_witness:
  "\<exists>st w2. freeze_on_unpublish down_node (str ''v'') toy_ctx toy_params
      ((toy_world published_fs)\<lparr>tick := 1\<rparr>) = (Inl st, w2) \<and>
     node_unpublish_volume toy_J (down_node\<lparr>ns_mounter := rspacefs_mounter ok_spawn []\<rparr>) toy_unpublish
       (toy_world published_fs) = (Inl st, w2)"
proof -
  let ?run = "freeze_on_unpublish down_node (str ''v'') toy_ctx toy_params ((toy_world published_fs)\<lparr>tick := 1\<rparr>)"
  let ?st = "internal (FreezeMsg (str ''capture-on-delete'') (Push (Http (HttpError []))))"
  have "fst ?run = Inl ?st" by code_simp
  then obtain w2 where run: "?run = (Inl ?st, w2)" by (rule fst_eqE)
  have "node_unpublish_volume toy_J (down_node\<lparr>ns_mounter := rspacefs_mounter ok_spawn []\<rparr>) toy_unpublish
    (toy_world published_fs) = (Inl ?st, w2)"
    by (rule unpublish_capture_failure_keeps_volume [OF _ _ _ toy_ctx_parse _])
      (use run toy_load in \<open>simp_all add: down_node_def lit_simps\<close>)
  with run show ?thesis by blast
qed

text \<open>
  C29. Unpublishing is idempotent: when neither the target nor the publish state exists, it succeeds
  with the driver's own mounter, runs no program and changes no file.
\<close>

theorem unpublish_idempotent:
  assumes "ns_mounter svc = rspacefs_mounter spawn bin"
    and "nu_volume_id req \<noteq> []" and "nu_target_path req \<noteq> []"
    and "fs_get (fs w) (loc_of (cwd w) (nu_target_path req)) = None"
    and "fs_get (fs w) (loc_of (cwd w) (state_path (ns_cfg svc) (nu_volume_id req))) = None"
  shows "fst (node_unpublish_volume J svc req w) = Inr () \<and>
    fs (snd (node_unpublish_volume J svc req w)) = fs w \<and>
    ext (snd (node_unpublish_volume J svc req w)) = ext w"
  using rsp.unpublish_absent [OF assms] by (simp add: idle_def fs_same_def)

theorem unpublish_idempotent_witness:
  "fst (node_unpublish_volume toy_J toy_node toy_unpublish (toy_world [])) = Inr ()"
proof -
  have "ns_mounter toy_node = rspacefs_mounter ok_spawn (str ''m'')" by (simp add: toy_node_def)
  moreover have "nu_volume_id toy_unpublish \<noteq> []" "nu_target_path toy_unpublish \<noteq> []"
    by (simp_all add: lit_simps)
  moreover have "fs_get (fs (toy_world [])) (loc_of (cwd (toy_world [])) (nu_target_path toy_unpublish)) = None"
    by code_simp
  moreover have "fs_get (fs (toy_world []))
    (loc_of (cwd (toy_world [])) (state_path (ns_cfg toy_node) (nu_volume_id toy_unpublish))) = None"
    by code_simp
  ultimately show ?thesis by (rule unpublish_idempotent [THEN conjunct1])
qed

text \<open>
  C34. A volume without seeds and without \<open>captureRepo\<close> that asks for capture can never be
  unpublished: every attempt fails with \<open>FailedPrecondition\<close> before any capture or unmount, whatever
  the configured capture registry, the mounter, the registry and the daemon are.
\<close>

theorem unpublish_stuck_without_capture_repo:
  assumes "nu_volume_id req \<noteq> []" and "nu_target_path req \<noteq> []"
    and "load_state J cfg (nu_volume_id req) w = (Inr (Some c) :: status + ctx option, w1)"
    and "pvc_parse c = Inr params" and "capture_on_delete params"
    and "capture_repo params = None" and "seeds params = []"
  shows "node_unpublish_volume J
      \<lparr>ns_cfg = cfg, ns_mounter = M, ns_registry = R, ns_capturer = C\<rparr> req w =
    (Inl (failed_precondition
       (Msg (str ''captureOnDelete set but no captureRepo and no seed to derive one from''))), w1)"
proof -
  let ?svc = "\<lparr>ns_cfg = cfg, ns_mounter = M, ns_registry = R, ns_capturer = C\<rparr>"
  have "load_state J (ns_cfg ?svc) (nu_volume_id req) w = (Inr (Some c) :: status + ctx option, w1)"
    using assms(3) by simp
  from node_unpublish_load [OF assms(1,2) this] assms(4-7) show ?thesis
    by (simp add: capture_if_asked_simps freeze_on_unpublish_def resolved_capture_repo_simps io_bind_def)
qed

definition seedless_ctx :: ctx where
  "seedless_ctx = [CAPTURE_ON_DELETE \<mapsto> str ''true'']"

definition seedless_J :: ctx_libs where
  "seedless_J = toy_J\<lparr>ctx_from_slice := \<lambda>_. Some seedless_ctx\<rparr>"

theorem unpublish_stuck_without_capture_repo_witness:
  "fst (node_unpublish_volume seedless_J toy_node toy_unpublish (toy_world published_fs)) =
   Inl (failed_precondition
     (Msg (str ''captureOnDelete set but no captureRepo and no seed to derive one from'')))"
proof -
  have "fs_get (fs (toy_world published_fs)) (loc_of (cwd (toy_world published_fs)) (state_path toy_cfg (str ''v'')))
    = Some (File [1])" by code_simp
  moreover have "faults (toy_world published_fs) (tick (toy_world published_fs)) = None"
    by (simp add: toy_world_def)
  ultimately have ld: "load_state seedless_J toy_cfg (nu_volume_id toy_unpublish) (toy_world published_fs) =
    (Inr (Some seedless_ctx) :: status + ctx option, (toy_world published_fs)\<lparr>tick := 1\<rparr>)"
    by (simp only: toy_unpublish_simps) (subst load_state_present, simp_all add: seedless_J_def toy_world_def)
  have parse: "pvc_parse seedless_ctx =
    Inr \<lparr>seeds = [], access_mode = None, lifecycle = None, owner = None, capture_on_delete = True,
         capture_repo = None\<rparr>"
    by (simp add: seedless_ctx_def pvc_parse_def parse_opt_def truthy_def)
  have ne: "nu_volume_id toy_unpublish \<noteq> []" "nu_target_path toy_unpublish \<noteq> []"
    by (simp_all add: lit_simps)
  from unpublish_stuck_without_capture_repo [OF ne ld parse] show ?thesis by (simp add: toy_node_def)
qed



section \<open>Volumes apart\<close>

text \<open>Everything the driver keeps for a volume.\<close>

definition volume_paths :: "config \<Rightarrow> rstr \<Rightarrow> path list" where
  "volume_paths cfg v =
     [upper_dir cfg v, lowers_dir cfg v, control_socket cfg v, capture_staging cfg v, state_path cfg v]"

lemma volume_paths_inside:
  "p \<in> set (volume_paths cfg v) \<Longrightarrow> prefix (loc_of c (volume_dir cfg v)) (loc_of c p)"
  by (auto simp: volume_paths_def)

text \<open>
  C28. Volumes do not share state: for volume ids that are file names, the five paths of a volume
  (upper, lowers, control socket, staging file, publish state) are five different entries of its own
  directory below the data directory, and no path of one volume lies at or below a path of another.
\<close>

theorem volumes_apart:
  assumes "plain_name u" and "plain_name v" and "u \<noteq> v"
  shows "distinct (map (loc_of c) (volume_paths cfg u)) \<and>
    (\<forall>p \<in> set (volume_paths cfg u). butlast (loc_of c p) = loc_of c (data_dir cfg) @ [str ''volumes'', u]) \<and>
    (\<forall>p \<in> set (volume_paths cfg u). \<forall>q \<in> set (volume_paths cfg v). \<not> prefix (loc_of c p) (loc_of c q))"
proof -
  have "\<not> prefix (loc_of c p) (loc_of c q)"
    if "p \<in> set (volume_paths cfg u)" "q \<in> set (volume_paths cfg v)" for p q
    using volume_dirs_apart [OF assms] volume_paths_inside [OF that(1)] volume_paths_inside [OF that(2)]
    by (meson prefix_order.order_trans)
  moreover have "distinct (map (loc_of c) (volume_paths cfg u))"
    by (simp add: volume_paths_def)
  moreover have "\<forall>p \<in> set (volume_paths cfg u).
    butlast (loc_of c p) = loc_of c (data_dir cfg) @ [str ''volumes'', u]"
    using assms(1) by (simp add: volume_paths_def butlast_append)
  ultimately show ?thesis by blast
qed

theorem volumes_apart_witness:
  "distinct (map (loc_of []) (volume_paths toy_cfg (str ''a''))) \<and>
   \<not> prefix (loc_of [] (upper_dir toy_cfg (str ''a''))) (loc_of [] (upper_dir toy_cfg (str ''b'')))"
proof -
  have "plain_name (str ''a'')" "plain_name (str ''b'')" "str ''a'' \<noteq> str ''b''"
    by (simp_all add: plain_name_def lit_simps)
  from volumes_apart [OF this, of "[]" toy_cfg]
    have apart: "distinct (map (loc_of []) (volume_paths toy_cfg (str ''a'')))"
    "\<forall>p \<in> set (volume_paths toy_cfg (str ''a'')). \<forall>q \<in> set (volume_paths toy_cfg (str ''b'')).
      \<not> prefix (loc_of [] p) (loc_of [] q)" by blast+
  have "upper_dir toy_cfg v \<in> set (volume_paths toy_cfg v)" for v by (simp add: volume_paths_def)
  with apart show ?thesis by blast
qed

text \<open>
  C36. A volume id is used as a path without a check: an absolute id replaces the data directory
  altogether, so that the publish state of a volume \<open>/x\<close> is the file \<open>publish.json\<close> of the host
  directory \<open>/x\<close>, and the id \<open>..\<close> names the data directory itself.
\<close>

theorem volume_id_escapes:
  "volume_dir cfg (c_slash # x) = c_slash # x \<and>
   loc_of c (state_path cfg (c_slash # x)) = loc_of c (c_slash # x) @ [str ''publish.json''] \<and>
   loc_of c (upper_dir cfg [c_dot, c_dot]) = loc_of c (data_dir cfg) @ [str ''upper'']"
proof -
  have abs: "volume_dir cfg (c_slash # x) = c_slash # x"
    by (simp add: volume_dir_def path_join_def is_absolute_def)
  have "\<not> is_absolute [c_dot, c_dot]" by (simp add: is_absolute_def)
  then have "loc_of c (volume_dir cfg [c_dot, c_dot]) = loc_of c (data_dir cfg)"
    by (simp add: volume_dir_def loc_of_join walk_seg_def)
  with abs show ?thesis by simp
qed

end
