(* ===== verification/Controller.thy ===== *)
theory Controller
  imports Node
begin

text \<open>
  \<open>controller.rs\<close>: the controller service. It keeps no state of its own: \<open>create_volume\<close> validates
  the parameters and the seeds and returns the volume context, \<open>create_snapshot\<close> freezes a volume
  whose control socket is on this host, and the delete calls only check their argument.
\<close>

record 'x controller_service =
  ct_cfg :: config
  ct_registry :: "'x registry_ops"
  ct_capturer :: "'x capturer_ops"

definition controller_cap :: "controller_cap_rpc \<Rightarrow> service_capability" where
  "controller_cap rpc = \<lparr>sc_type = Some (RpcCap (controller_cap_number rpc))\<rparr>"

definition controller_get_capabilities :: "service_capability list" where
  "controller_get_capabilities = [controller_cap CapCreateDeleteVolume, controller_cap CapCreateDeleteSnapshot]"

text \<open>The parameters with the snapshot a volume is restored from, if any, as the last seed.\<close>

definition add_snapshot_seed :: "volume_content_source option \<Rightarrow> pvc_params \<Rightarrow> pvc_params" where
  "add_snapshot_seed src params =
     (case src of
        Some s \<Rightarrow>
          (case vcs_type s of
             Some (SnapshotSource snapshot_id) \<Rightarrow> params\<lparr>seeds := seeds params @ [snapshot_id]\<rparr>
           | _ \<Rightarrow> params)
      | None \<Rightarrow> params)"

fun resolve_seeds :: "'x registry_ops \<Rightarrow> rstr list \<Rightarrow> ('x world, status, unit) io" where
  "resolve_seeds reg [] = io_ok ()"
| "resolve_seeds reg (seed # sds) =
     io_bind
       (io_map_err (\<lambda>e. failed_precondition (SeedMsg seed e)) (reg_resolve reg seed))
       (\<lambda>_. resolve_seeds reg sds)"

definition create_volume ::
  "'x controller_service \<Rightarrow> create_volume_request \<Rightarrow> ('x world, status, volume) io" where
  "create_volume svc req =
     (if cv_name req = [] then io_err (invalid_argument (Msg (str ''name is required'')))
      else if cv_volume_capabilities req = []
      then io_err (invalid_argument (Msg (str ''volume_capabilities is required'')))
      else
        io_bind
          (io_lift (res_map_err (\<lambda>e. invalid_argument (ParamMsg e)) (pvc_parse (cv_parameters req))))
          (\<lambda>parsed.
            let params = add_snapshot_seed (cv_volume_content_source req) parsed
            in io_bind (resolve_seeds (ct_registry svc) (seeds params)) (\<lambda>_.
                 io_ok
                   \<lparr>vol_capacity_bytes =
                      (case cv_capacity_range req of
                         Some r \<Rightarrow> max (required_bytes r) (limit_bytes r) | None \<Rightarrow> 0),
                    vol_volume_id = cv_name req,
                    vol_volume_context = (to_volume_context params)(VOLUME_NAME \<mapsto> cv_name req),
                    vol_content_source = cv_volume_content_source req,
                    vol_accessible_topology = []\<rparr>)))"

definition delete_volume :: "rstr \<Rightarrow> ('x world, status, unit) io" where
  "delete_volume volume_id =
     (if volume_id = [] then io_err (invalid_argument (Msg (str ''volume_id is required'')))
      else io_ok ())"

definition snapshot_target :: "config \<Rightarrow> ctx \<Rightarrow> rstr \<Rightarrow> rstr \<Rightarrow> status + rstr" where
  "snapshot_target cfg params source_volume_id name =
     (case params CAPTURE_REPO of
        Some repo \<Rightarrow> Inr (tag_form repo (sanitize_tag name))
      | None \<Rightarrow>
          (case capture_registry cfg of
             Some reg \<Rightarrow>
               Inr (tag_form (reg @ str ''/pvcs/'' @ source_volume_id) (sanitize_tag name))
           | None \<Rightarrow>
               Inl (failed_precondition
                 (Msg (str ''no captureRepo parameter and no --capture-registry configured'')))))"

text \<open>\<open>now_ts\<close>; a clock before the epoch counts as the epoch.\<close>

definition now_ts :: "'x world \<Rightarrow> timestamp" where
  "now_ts w =
     (let d = (if clock w < 0 then 0 else clock w)
      in \<lparr>ts_seconds = word_of_int (d div 1000000000), ts_nanos = word_of_int (d mod 1000000000)\<rparr>)"

definition create_snapshot ::
  "'x controller_service \<Rightarrow> create_snapshot_request \<Rightarrow> ('x world, status, snapshot) io" where
  "create_snapshot svc req =
     (if cs_source_volume_id req = []
      then io_err (invalid_argument (Msg (str ''source_volume_id is required'')))
      else if cs_name req = [] then io_err (invalid_argument (Msg (str ''name is required'')))
      else
        io_bind
          (io_lift (snapshot_target (ct_cfg svc) (cs_parameters req) (cs_source_volume_id req) (cs_name req)))
          (\<lambda>target_ref.
        io_bind (path_exists (control_socket (ct_cfg svc) (cs_source_volume_id req))) (\<lambda>there.
          if \<not> there then io_err (failed_precondition (NotMounted (cs_source_volume_id req)))
          else
            io_bind
              (io_map_err (\<lambda>e. internal (FreezeMsg (str ''snapshot'') e))
                (freeze_and_push (ct_capturer svc) (ct_registry svc)
                  (control_socket (ct_cfg svc) (cs_source_volume_id req))
                  (capture_staging (ct_cfg svc) (cs_source_volume_id req))
                  target_ref))
              (\<lambda>snapshot_id w.
                io_ok
                  \<lparr>snap_size_bytes = 0,
                   snap_snapshot_id = snapshot_id,
                   snap_source_volume_id = cs_source_volume_id req,
                   snap_creation_time = Some (now_ts w),
                   snap_ready_to_use = True,
                   snap_group_snapshot_id = []\<rparr> w))))"

definition delete_snapshot :: "rstr \<Rightarrow> ('x world, status, unit) io" where
  "delete_snapshot snapshot_id =
     (if snapshot_id = [] then io_err (invalid_argument (Msg (str ''snapshot_id is required'')))
      else io_ok ())"

definition validate_volume_capabilities ::
  "validate_request \<Rightarrow> ('x world, status, confirmed option \<times> rstr) io" where
  "validate_volume_capabilities req =
     (if vv_volume_id req = [] then io_err (invalid_argument (Msg (str ''volume_id is required'')))
      else io_ok
        (Some \<lparr>cf_volume_context = vv_volume_context req,
               cf_volume_capabilities = vv_volume_capabilities req,
               cf_parameters = vv_parameters req,
               cf_mutable_parameters = Map.empty\<rparr>, []))"

datatype controller_unsupported =
    ControllerPublishVolume | ControllerUnpublishVolume | ListVolumes | GetCapacity | ListSnapshots
  | ControllerExpandVolume | ControllerGetVolume | ControllerModifyVolume

fun controller_unsupported_status :: "controller_unsupported \<Rightarrow> status" where
  "controller_unsupported_status ControllerPublishVolume =
     unimplemented (Msg (str ''rspacefs has no attach step; PUBLISH_UNPUBLISH_VOLUME is not advertised''))"
| "controller_unsupported_status ControllerUnpublishVolume = unimplemented (Msg (str ''not supported''))"
| "controller_unsupported_status ListVolumes =
     unimplemented (Msg (str ''LIST_VOLUMES is not advertised''))"
| "controller_unsupported_status GetCapacity =
     unimplemented (Msg (str ''GET_CAPACITY is not advertised''))"
| "controller_unsupported_status ListSnapshots =
     unimplemented (Msg (str ''LIST_SNAPSHOTS is not advertised''))"
| "controller_unsupported_status ControllerExpandVolume =
     unimplemented (Msg (str ''EXPAND_VOLUME is not advertised''))"
| "controller_unsupported_status ControllerGetVolume =
     unimplemented (Msg (str ''GET_VOLUME is not advertised''))"
| "controller_unsupported_status ControllerModifyVolume =
     unimplemented (Msg (str ''MODIFY_VOLUME is not advertised''))"

section \<open>Seeds\<close>

lemma resolve_seeds_Inr:
  "resolve_seeds R sds w = (Inr u, w') \<Longrightarrow>
   \<exists>lss. list_all2 (\<lambda>seed ls. \<exists>v v'. reg_resolve R seed v = (Inr ls, v')) sds lss"
proof (induction sds arbitrary: w)
  case Nil
  then show ?case by simp
next
  case (Cons seed sds)
  from Cons.prems obtain ls v where res: "reg_resolve R seed w = (Inr ls, v)"
    and rest: "resolve_seeds R sds v = (Inr u, w')" by (auto simp: io_bind_eq_Inr)
  from Cons.IH [OF rest] obtain lss where
    "list_all2 (\<lambda>seed ls. \<exists>v v'. reg_resolve R seed v = (Inr ls, v')) sds lss" by blast
  with res show ?case by (intro exI [of _ "ls # lss"]) auto
qed

lemma resolve_seeds_Inl:
  "resolve_seeds R sds w = (Inl st, w') \<Longrightarrow>
   \<exists>pre seed post e v. sds = pre @ seed # post \<and> st = failed_precondition (SeedMsg seed e) \<and>
     resolve_seeds R pre w = (Inr (), v) \<and> reg_resolve R seed v = (Inl e, w')"
proof (induction sds arbitrary: w)
  case Nil
  then show ?case by simp
next
  case (Cons seed sds)
  then consider e where "reg_resolve R seed w = (Inl e, w')" "st = failed_precondition (SeedMsg seed e)"
    | ls v where "reg_resolve R seed w = (Inr ls, v)" "resolve_seeds R sds v = (Inl st, w')"
    by (auto simp: io_bind_eq_Inl io_map_err_eq_Inl)
  then show ?case
  proof cases
    case 1
    then have "seed # sds = [] @ seed # sds \<and> st = failed_precondition (SeedMsg seed e) \<and>
      resolve_seeds R [] w = (Inr (), w) \<and> reg_resolve R seed w = (Inl e, w')" by simp
    then show ?thesis by blast
  next
    case (2 ls v)
    from Cons.IH [OF 2(2)] obtain pre sd post e u where
      "sds = pre @ sd # post" "st = failed_precondition (SeedMsg sd e)"
      "resolve_seeds R pre v = (Inr (), u)" "reg_resolve R sd u = (Inl e, w')" by blast
    with 2(1) show ?thesis
      by (intro exI [of _ "seed # pre"] exI [of _ sd] exI [of _ post] exI [of _ e] exI [of _ u])
        (simp add: io_bind_eq_Inr)
  qed
qed

context registry_contract
begin

lemma resolve_seeds_same: "stays fs_same (resolve_seeds R sds)"
  by (induction sds) (auto intro!: fsame.bind resolve_same simp: fsame.pair)

lemma create_volume_same:
  assumes "ct_registry svc = R"
  shows "stays fs_same (create_volume svc req)"
  unfolding create_volume_def Let_def assms
  by (auto intro!: fsame.bind resolve_seeds_same simp: fsame.ok fsame.err fsame.lift)

end

section \<open>Volumes\<close>

lemma create_volume_Inr:
  assumes "create_volume svc req w = (Inr vol, w')"
  obtains parsed params where "cv_name req \<noteq> []" and "cv_volume_capabilities req \<noteq> []"
    and "pvc_parse (cv_parameters req) = Inr parsed"
    and "params = add_snapshot_seed (cv_volume_content_source req) parsed"
    and "resolve_seeds (ct_registry svc) (seeds params) w = (Inr (), w')"
    and "vol_volume_id vol = cv_name req"
    and "vol_volume_context vol = (to_volume_context params)(VOLUME_NAME \<mapsto> cv_name req)"
    and "vol_content_source vol = cv_volume_content_source req"
  using assms by (auto simp: create_volume_def Let_def io_bind_eq_Inr split: if_splits)

lemma add_snapshot_seed_cases:
  obtains "add_snapshot_seed src p = p"
  | id where "src = Some \<lparr>vcs_type = Some (SnapshotSource id)\<rparr>"
    and "add_snapshot_seed src p = p\<lparr>seeds := seeds p @ [id]\<rparr>"
proof (cases "\<exists>id. src = Some \<lparr>vcs_type = Some (SnapshotSource id)\<rparr>")
  case True
  then show thesis using that(2) by (auto simp: add_snapshot_seed_def)
next
  case False
  have "add_snapshot_seed src p = p"
  proof (cases src)
    case (Some s)
    with False have "vcs_type s \<noteq> Some (SnapshotSource id)" for id by (cases s) auto
    with Some show ?thesis
      by (simp add: add_snapshot_seed_def split: option.split content_source.split)
  qed (simp add: add_snapshot_seed_def)
  then show thesis by (rule that(1))
qed

lemma add_snapshot_seed_wf:
  assumes "params_wf p" and "\<And>id. src = Some \<lparr>vcs_type = Some (SnapshotSource id)\<rparr> \<Longrightarrow> seed_ok id"
  shows "params_wf (add_snapshot_seed src p)"
  using assms by (cases rule: add_snapshot_seed_cases [of src p]) (auto simp: params_wf_def)

section \<open>Snapshots\<close>

text \<open>The repository a snapshot goes to.\<close>

definition snapshot_repo :: "config \<Rightarrow> ctx \<Rightarrow> rstr \<Rightarrow> rstr option" where
  "snapshot_repo cfg params v =
     (case params CAPTURE_REPO of
        Some repo \<Rightarrow> Some repo
      | None \<Rightarrow> map_option (\<lambda>reg. reg @ str ''/pvcs/'' @ v) (capture_registry cfg))"

lemma snapshot_target_repo:
  "snapshot_target cfg params v name = Inr t \<longleftrightarrow>
     (\<exists>repo. snapshot_repo cfg params v = Some repo \<and> t = tag_form repo (sanitize_tag name))"
  by (auto simp: snapshot_target_def snapshot_repo_def split: option.splits)

lemma create_snapshot_Inr:
  assumes "create_snapshot svc req w = (Inr snap, w')"
  obtains t w1 where "cs_source_volume_id req \<noteq> []" and "cs_name req \<noteq> []"
    and "snapshot_target (ct_cfg svc) (cs_parameters req) (cs_source_volume_id req) (cs_name req) = Inr t"
    and "fs_get (fs w) (loc_of (cwd w) (control_socket (ct_cfg svc) (cs_source_volume_id req))) \<noteq> None"
    and "freeze_and_push (ct_capturer svc) (ct_registry svc)
           (control_socket (ct_cfg svc) (cs_source_volume_id req))
           (capture_staging (ct_cfg svc) (cs_source_volume_id req)) t w1 = (Inr (snap_snapshot_id snap), w')"
    and "fs_same w w1"
    and "snap_source_volume_id snap = cs_source_volume_id req" and "snap_ready_to_use snap"
    and "snap_creation_time snap = Some (now_ts w')"
proof -
  from assms obtain t there w1 id where ids: "cs_source_volume_id req \<noteq> []" "cs_name req \<noteq> []"
    and t: "snapshot_target (ct_cfg svc) (cs_parameters req) (cs_source_volume_id req) (cs_name req) = Inr t"
    and ex: "path_exists (control_socket (ct_cfg svc) (cs_source_volume_id req)) w = (Inr there :: status + bool, w1)"
    and there: "there"
    and fr: "freeze_and_push (ct_capturer svc) (ct_registry svc)
           (control_socket (ct_cfg svc) (cs_source_volume_id req))
           (capture_staging (ct_cfg svc) (cs_source_volume_id req)) t w1 = (Inr id, w')"
    and snap: "snap = \<lparr>snap_size_bytes = 0, snap_snapshot_id = id,
      snap_source_volume_id = cs_source_volume_id req, snap_creation_time = Some (now_ts w'),
      snap_ready_to_use = True, snap_group_snapshot_id = []\<rparr>"
    by (auto simp: create_snapshot_def io_bind_eq_Inr split: if_splits)
  from ex there path_exists_True have
    "fs_get (fs w) (loc_of (cwd w) (control_socket (ct_cfg svc) (cs_source_volume_id req))) \<noteq> None"
    by metis
  moreover have "fs_same w w1" by (rule staysD' [OF stays_same_calls(3) ex])
  ultimately show thesis using ids t fr snap by (intro that) simp_all
qed

section \<open>Properties\<close>

definition toy_controller :: "unit controller_service" where
  "toy_controller =
     \<lparr>ct_cfg = toy_cfg, ct_registry = oci_registry toy_libs toy_client, ct_capturer = file_capturer\<rparr>"

definition toy_create :: create_volume_request where
  "toy_create =
     \<lparr>cv_name = str ''pv'', cv_capacity_range = None,
      cv_volume_capabilities = [\<lparr>vc_access_type = None, vc_access_mode = None\<rparr>],
      cv_parameters = toy_ctx,
      cv_volume_content_source = Some \<lparr>vcs_type = Some (SnapshotSource (str ''r/s''))\<rparr>\<rparr>"

lemma toy_create_runs:
  obtains vol w' where "create_volume toy_controller toy_create (toy_world []) = (Inr vol, w')"
proof -
  have "isl (fst (create_volume toy_controller toy_create (toy_world []))) = False" by code_simp
  then show thesis by (metis that isl_def prod.collapse sum.exhaust_sel sum.disc(1) Inr_Inl_False)
qed

text \<open>
  What \<open>CreateVolume\<close> promises the node: a volume it returns is named by the request, its context
  carries that name and parses to the parameters of the request with the snapshot it is restored
  from, if any, as an additional seed; and every seed in it has just been resolved, in order. The
  snapshot id must be a possible seed (no separator, no surrounding white space).
\<close>

lemma create_volume_context_parses:
  assumes "create_volume svc req w = (Inr vol, w')"
    and "\<And>id. cv_volume_content_source req = Some \<lparr>vcs_type = Some (SnapshotSource id)\<rparr> \<Longrightarrow> seed_ok id"
  shows "\<exists>parsed params lss. pvc_parse (cv_parameters req) = Inr parsed \<and>
    params = add_snapshot_seed (cv_volume_content_source req) parsed \<and>
    pvc_parse (vol_volume_context vol) = Inr params \<and>
    vol_volume_id vol = cv_name req \<and> vol_volume_context vol VOLUME_NAME = Some (cv_name req) \<and>
    list_all2 (\<lambda>seed ls. \<exists>v v'. reg_resolve (ct_registry svc) seed v = (Inr ls, v')) (seeds params) lss"
  using assms(1)
proof (cases rule: create_volume_Inr)
  case (1 parsed params)
  have "params_wf params" unfolding 1(4)
    by (rule add_snapshot_seed_wf [OF pvc_parse_wf [OF 1(3)] assms(2)])
  then have "pvc_parse (vol_volume_context vol) = Inr params"
    by (simp add: 1(7) context_roundtrip_wf)
  moreover from resolve_seeds_Inr [OF 1(5)] obtain lss where
    "list_all2 (\<lambda>seed ls. \<exists>v v'. reg_resolve (ct_registry svc) seed v = (Inr ls, v')) (seeds params) lss"
    by blast
  ultimately show ?thesis using 1(3,4,6,7) by auto
qed

lemma toy_seed_ok: "seed_ok (str ''r/s'')"
  by (simp add: seed_ok_def trim_def is_whitespace_def is_seed_sep_def lit_simps)

lemma create_volume_context_parses_instance:
  "\<exists>vol w' parsed params. create_volume toy_controller toy_create (toy_world []) = (Inr vol, w') \<and>
     pvc_parse toy_ctx = Inr parsed \<and> pvc_parse (vol_volume_context vol) = Inr params \<and>
     params = add_snapshot_seed (cv_volume_content_source toy_create) parsed \<and>
     vol_volume_id vol = str ''pv''"
proof -
  obtain vol w' where run: "create_volume toy_controller toy_create (toy_world []) = (Inr vol, w')"
    by (rule toy_create_runs)
  have "seed_ok id" if "cv_volume_content_source toy_create = Some \<lparr>vcs_type = Some (SnapshotSource id)\<rparr>" for id
    using that toy_seed_ok by (simp add: toy_create_def)
  from create_volume_context_parses [OF run this] run show ?thesis
    by (simp add: toy_create_def) blast
qed

text \<open>
  Every way \<open>CreateVolume\<close> fails: it is an \<open>InvalidArgument\<close> decided from the request alone,
  with nothing done, or a \<open>FailedPrecondition\<close> naming the first seed that does not resolve, all
  seeds before it having resolved.
\<close>

lemma create_volume_failure:
  assumes "create_volume svc req w = (Inl st, w')"
  shows "st_code st = InvalidArgument \<and> w' = w \<and>
      (cv_name req = [] \<or> cv_volume_capabilities req = [] \<or> (\<exists>e. pvc_parse (cv_parameters req) = Inl e)) \<or>
    (\<exists>parsed pre seed post e v. pvc_parse (cv_parameters req) = Inr parsed \<and>
       seeds (add_snapshot_seed (cv_volume_content_source req) parsed) = pre @ seed # post \<and>
       resolve_seeds (ct_registry svc) pre w = (Inr (), v) \<and>
       reg_resolve (ct_registry svc) seed v = (Inl e, w') \<and>
       st = failed_precondition (SeedMsg seed e))"
proof (cases "cv_name req = [] \<or> cv_volume_capabilities req = []")
  case True
  with assms show ?thesis by (auto simp: create_volume_def split: if_splits)
next
  case False
  show ?thesis
  proof (cases "pvc_parse (cv_parameters req)")
    case (Inl e)
    with assms False show ?thesis by (auto simp: create_volume_def io_bind_eq_Inl)
  next
    case (Inr parsed)
    with assms False have "resolve_seeds (ct_registry svc)
      (seeds (add_snapshot_seed (cv_volume_content_source req) parsed)) w = (Inl st, w')"
      by (auto simp: create_volume_def Let_def io_bind_eq_Inl)
    from resolve_seeds_Inl [OF this] Inr show ?thesis by blast
  qed
qed

lemma create_volume_failure_instance:
  "\<exists>st w'. create_volume (toy_controller\<lparr>ct_registry := oci_registry toy_libs down_client\<rparr>) toy_create
       (toy_world []) = (Inl st, w') \<and>
     (st_code st = InvalidArgument \<or> (\<exists>seed e. st = failed_precondition (SeedMsg seed e)))"
proof -
  let ?run = "create_volume (toy_controller\<lparr>ct_registry := oci_registry toy_libs down_client\<rparr>) toy_create (toy_world [])"
  have "isl (fst ?run)" by code_simp
  then obtain st w' where run: "?run = (Inl st, w')" by (metis isl_def prod.collapse)
  from create_volume_failure [OF run] run show ?thesis by blast
qed

text \<open>
  The controller keeps nothing on disk: creating a volume changes no local file, whatever its
  outcome, and deleting a volume or a snapshot and validating capabilities change nothing at all.
\<close>

lemma controller_keeps_no_files:
  assumes "ct_registry svc = oci_registry L c"
  shows "fs (snd (create_volume svc req w)) = fs w \<and> snd (delete_volume v w) = w \<and>
    snd (delete_snapshot i w) = w \<and> snd (validate_volume_capabilities q w) = w"
proof -
  have "stays fs_same (create_volume svc req)" by (rule oci.create_volume_same [OF assms])
  then have "fs (snd (create_volume svc req w)) = fs w" by (simp add: stays_def fs_same_def)
  then show ?thesis
    by (simp add: delete_volume_def delete_snapshot_def validate_volume_capabilities_def)
qed

text \<open>
  Where a snapshot goes: the target is the repository of the snapshot class, else
  \<open>REGISTRY/pvcs/VOLUME\<close> of the configuration, with the sanitized snapshot name as its tag, and when
  that repository is \<open>host/path\<close> without \<open>@\<close>, the target parses back to that host, that path and
  that tag, so a snapshot never lands in another repository or tag than the one named.
\<close>

lemma snapshot_target_parses:
  assumes "snapshot_target cfg params v name = Inr t" and "snapshot_repo cfg params v = Some (reg @ c_slash # rep)"
    and "reg \<noteq> []" and "rep \<noteq> []" and "c_slash \<notin> set reg" and "c_at \<notin> set (reg @ rep)"
  shows "reference_parse t = Inr \<lparr>registry = reg, repository = rep, reference = sanitize_tag name\<rparr>"
  using assms by (auto simp: snapshot_target_repo intro!: parse_tag_form)

lemma snapshot_target_parses_instance:
  "reference_parse (str ''q/pvcs/v:a-b'') =
   Inr \<lparr>registry = str ''q'', repository = str ''pvcs/v'', reference = str ''a-b''\<rparr>"
proof -
  have tag: "sanitize_tag (str ''a b'') = str ''a-b''"
    by (simp add: sanitize_tag_eq tag_char_def is_ascii_alphanumeric_def lit_simps)
  then have "snapshot_target toy_cfg Map.empty (str ''v'') (str ''a b'') = Inr (str ''q/pvcs/v:a-b'')"
    by (simp add: snapshot_target_def toy_cfg_def tag_form_def lit_simps)
  from snapshot_target_parses [OF this, of "str ''q''" "str ''pvcs/v''"] tag show ?thesis
    by (simp add: snapshot_repo_def toy_cfg_def lit_simps)
qed


definition toy_snapshot :: create_snapshot_request where
  "toy_snapshot = \<lparr>cs_source_volume_id = str ''v'', cs_name = str ''s1'', cs_parameters = Map.empty\<rparr>"

definition live_fs :: fsys where
  "live_fs = ([str ''d'', str ''volumes'', str ''v'', str ''control.sock''], Sock) # published_fs"


text \<open>
  A snapshot needs the live volume: without the control socket on this host the call fails with
  \<open>FailedPrecondition\<close> and does nothing, whatever the daemon and the registry would do; likewise when
  no target repository is configured.
\<close>

lemma create_snapshot_needs_socket:
  assumes "cs_source_volume_id req \<noteq> []" and "cs_name req \<noteq> []"
    and "fs_get (fs w) (loc_of (cwd w) (control_socket cfg (cs_source_volume_id req))) = None"
  shows "\<exists>m. fst (create_snapshot \<lparr>ct_cfg = cfg, ct_registry = R, ct_capturer = C\<rparr> req w) =
      Inl (failed_precondition m) \<and>
    idle w (snd (create_snapshot \<lparr>ct_cfg = cfg, ct_registry = R, ct_capturer = C\<rparr> req w))"
proof (cases "snapshot_target cfg (cs_parameters req) (cs_source_volume_id req) (cs_name req)")
  case (Inl st)
  then obtain m where "st = failed_precondition m"
    by (auto simp: snapshot_target_def split: option.splits)
  with Inl assms(1,2) show ?thesis by (simp add: create_snapshot_def io_bind_def fidle.R_refl)
next
  case (Inr t)
  let ?ex = "path_exists (control_socket cfg (cs_source_volume_id req)) w :: (status + bool) \<times> 'a world"
  have "idle w (snd ?ex)" by (rule staysD) simp
  with Inr assms(1,2) path_exists_absent [OF assms(3), where 'b = status] show ?thesis
    by (auto simp: create_snapshot_def io_bind_def split: prod.splits)
qed

lemma create_snapshot_needs_socket_instance:
  "\<exists>m. fst (create_snapshot toy_controller toy_snapshot (toy_world [])) = Inl (failed_precondition m)"
proof -
  have "fs_get (fs (toy_world [])) (loc_of (cwd (toy_world []))
    (control_socket toy_cfg (cs_source_volume_id toy_snapshot))) = None" by code_simp
  moreover have "cs_source_volume_id toy_snapshot \<noteq> []" "cs_name toy_snapshot \<noteq> []"
    by (simp_all add: toy_snapshot_def lit_simps)
  ultimately show ?thesis
    using create_snapshot_needs_socket [of toy_snapshot "toy_world []" toy_cfg] by (auto simp: toy_controller_def)
qed

text \<open>
  The creation time is a valid timestamp: its nanoseconds are below one billion for every clock,
  and until the year 292277026596 seconds (as \<open>i64\<close>) and nanoseconds together are the clock, or the
  epoch for a clock before it.
\<close>

lemma now_ts_valid:
  "uint (ts_nanos (now_ts w)) < 1000000000 \<and>
   (clock w < 2 ^ 63 * 1000000000 \<longrightarrow>
      sint (ts_seconds (now_ts w)) * 1000000000 + uint (ts_nanos (now_ts w)) = max 0 (clock w))"
proof -
  define d where "d = max 0 (clock w)"
  have ts: "now_ts w = \<lparr>ts_seconds = word_of_int (d div 1000000000), ts_nanos = word_of_int (d mod 1000000000)\<rparr>"
    by (simp add: now_ts_def d_def Let_def max_def)
  have n: "uint (word_of_int (d mod 1000000000) :: u32) = d mod 1000000000"
    by (simp add: uint_word_of_int take_bit_int_eq_self_iff take_bit_eq_mod [symmetric])
  have "sint (word_of_int (d div 1000000000) :: u64) = d div 1000000000" if "clock w < 2 ^ 63 * 1000000000"
  proof -
    have "0 \<le> d div 1000000000" "d div 1000000000 < 2 ^ 63" using that by (auto simp: d_def)
    then show ?thesis by (simp add: sint_sbintrunc' signed_take_bit_int_eq_self)
  qed
  then show ?thesis using n by (auto simp: ts d_def [symmetric])
qed

lemma now_ts_valid_instance:
  "sint (ts_seconds (now_ts ((toy_world [])\<lparr>clock := 3000000007\<rparr>))) * 1000000000 +
   uint (ts_nanos (now_ts ((toy_world [])\<lparr>clock := 3000000007\<rparr>))) = 3000000007"
  using now_ts_valid [of "(toy_world [])\<lparr>clock := 3000000007\<rparr>"] by simp

text \<open>The capability that announces a call.\<close>

fun rpc_capability :: "controller_unsupported \<Rightarrow> controller_cap_rpc" where
  "rpc_capability ControllerPublishVolume = CapPublishUnpublishVolume"
| "rpc_capability ControllerUnpublishVolume = CapPublishUnpublishVolume"
| "rpc_capability ListVolumes = CapListVolumes"
| "rpc_capability GetCapacity = CapGetCapacity"
| "rpc_capability ListSnapshots = CapListSnapshots"
| "rpc_capability ControllerExpandVolume = CapExpandVolume"
| "rpc_capability ControllerGetVolume = CapGetVolume"
| "rpc_capability ControllerModifyVolume = CapModifyVolume"

fun node_rpc_capability :: "node_unsupported \<Rightarrow> node_cap_rpc" where
  "node_rpc_capability NodeGetVolumeStats = CapGetVolumeStats"
| "node_rpc_capability NodeExpandVolume = CapNodeExpandVolume"

text \<open>
  Advertised and implemented agree: every call of the two services that answers \<open>Unimplemented\<close>
  belongs to a capability that the service does not advertise.
\<close>

lemma unsupported_not_advertised:
  "st_code (controller_unsupported_status r) = Unimplemented \<and>
   controller_cap (rpc_capability r) \<notin> set controller_get_capabilities \<and>
   st_code (node_unsupported_status n) = Unimplemented \<and>
   node_cap (node_rpc_capability n) \<notin> set node_get_capabilities"
  by (cases r; cases n)
    (simp_all add: controller_get_capabilities_def controller_cap_def node_get_capabilities_def node_cap_def)

end
