(* ===== verification/Server.thy ===== *)
theory Server
  imports Controller
begin

text \<open>
  \<open>identity.rs\<close>, \<open>server.rs\<close> and \<open>main.rs\<close>: the identity service, the socket the server listens
  on, which services a role serves, the shutdown signal, and the start of the process. Binding the
  socket, the gRPC server (\<open>tonic\<close>) and the signal handlers of \<open>tokio\<close> are parameters; what \<open>clap\<close>
  finds on the command line and in the environment arrives as optional values.
\<close>

section \<open>Identity\<close>

record plugin_info =
  pi_name :: rstr
  pi_vendor_version :: rstr
  pi_manifest :: ctx

definition get_plugin_info :: plugin_info where
  "get_plugin_info = \<lparr>pi_name = DRIVER_NAME, pi_vendor_version = DRIVER_VERSION, pi_manifest = Map.empty\<rparr>"

text \<open>\<open>ServiceType::ControllerService as i32\<close> is 1.\<close>

definition get_plugin_capabilities :: "service_capability list" where
  "get_plugin_capabilities = [\<lparr>sc_type = Some (ServiceCap 1)\<rparr>]"

definition probe :: "bool option" where
  "probe = Some True"

section \<open>Server\<close>

definition endpoint_path :: "rstr \<Rightarrow> path" where
  "endpoint_path endpoint =
     (case strip_prefix (str ''unix://'') endpoint of Some p \<Rightarrow> p | None \<Rightarrow> endpoint)"

definition remove_if_socket :: "path \<Rightarrow> ('x world, io_error, unit) io" where
  "remove_if_socket path w =
     (case metadata path w of
        (Inr _, w') \<Rightarrow> remove_file path w'
      | (Inl e, w') \<Rightarrow> if e = NotFound then (Inr (), w') else (Inl e, w'))"

record 'x backends =
  be_mounter :: "'x mounter_ops"
  be_registry :: "'x registry_ops"
  be_capturer :: "'x capturer_ops"

record 'x router =
  rt_controller :: "'x controller_service option"
  rt_node :: "'x node_service option"

text \<open>The services added to the server beside the identity service, which is always served.\<close>

definition make_router :: "role \<Rightarrow> config \<Rightarrow> 'x backends \<Rightarrow> 'x router" where
  "make_router r cfg be =
     \<lparr>rt_controller =
        (if serves_controller r
         then Some \<lparr>ct_cfg = cfg, ct_registry = be_registry be, ct_capturer = be_capturer be\<rparr>
         else None),
      rt_node =
        (if serves_node r
         then Some \<lparr>ns_cfg = cfg, ns_mounter = be_mounter be, ns_registry = be_registry be,
                    ns_capturer = be_capturer be\<rparr>
         else None)\<rparr>"

subsection \<open>The shutdown signal\<close>

datatype signal_kind = SIGTERM | SIGINT

text \<open>
  What \<open>tokio::signal\<close> offers: installing a handler, and polling its \<open>recv\<close> future, which is ready when
  the signal has arrived. \<open>sg_branch\<close> is the branch that \<open>select!\<close> polls first, which it draws anew each
  time.
\<close>

record 'x signal_ops =
  sg_signal :: "signal_kind \<Rightarrow> ('x world, io_error, unit) io"
  sg_recv :: "signal_kind \<Rightarrow> 'x world \<Rightarrow> bool \<times> 'x world"
  sg_branch :: "'x world \<Rightarrow> signal_kind"

text \<open>The states of the future that \<open>shutdown_signal\<close> returns: not polled yet, waiting in \<open>select!\<close>
  with both handlers installed, and resolved.\<close>

datatype shutdown = Unpolled | Waiting | Resolved signal_kind

definition other_signal :: "signal_kind \<Rightarrow> signal_kind" where
  "other_signal k = (case k of SIGTERM \<Rightarrow> SIGINT | SIGINT \<Rightarrow> SIGTERM)"

definition select_signal :: "'x signal_ops \<Rightarrow> ('x world, rstr, shutdown) io" where
  "select_signal G w =
     (let k = sg_branch G w
      in case sg_recv G k w of
           (True, w1) \<Rightarrow> (Inr (Resolved k), w1)
         | (False, w1) \<Rightarrow>
             (case sg_recv G (other_signal k) w1 of
                (True, w2) \<Rightarrow> (Inr (Resolved (other_signal k)), w2)
              | (False, w2) \<Rightarrow> (Inr Waiting, w2)))"

text \<open>One poll of the future; the error is the message of the panic of a failed \<open>expect\<close>.\<close>

fun shutdown_signal :: "'x signal_ops \<Rightarrow> shutdown \<Rightarrow> ('x world, rstr, shutdown) io" where
  "shutdown_signal G Unpolled =
     io_bind (io_map_err (\<lambda>_. str ''install SIGTERM handler'') (sg_signal G SIGTERM)) (\<lambda>_.
     io_bind (io_map_err (\<lambda>_. str ''install SIGINT handler'') (sg_signal G SIGINT)) (\<lambda>_.
       select_signal G))"
| "shutdown_signal G Waiting = select_signal G"
| "shutdown_signal G (Resolved k) = io_ok (Resolved k)"

subsection \<open>Serving\<close>

datatype serve_error = ServeIo io_error | Transport rstr | Panic rstr

record 'x transport =
  tr_bind :: "path \<Rightarrow> ('x world, io_error, unit) io"
  tr_serve :: "'x router \<Rightarrow> (shutdown \<Rightarrow> ('x world, rstr, shutdown) io) \<Rightarrow> ('x world, serve_error, unit) io"

definition serve ::
  "'x transport \<Rightarrow> 'x signal_ops \<Rightarrow> rstr \<Rightarrow> role \<Rightarrow> config \<Rightarrow> 'x backends \<Rightarrow>
   ('x world, serve_error, unit) io" where
  "serve T G endpoint r cfg be =
     (let path = endpoint_path endpoint
      in io_bind
           (case path_parent path of
              Some parent \<Rightarrow> if parent \<noteq> [] then io_map_err ServeIo (create_dir_all parent) else io_ok ()
            | None \<Rightarrow> io_ok ())
           (\<lambda>_.
         io_bind (io_map_err ServeIo (remove_if_socket path)) (\<lambda>_.
         io_bind (io_map_err ServeIo (tr_bind T path)) (\<lambda>_.
         io_bind (tr_serve T (make_router r cfg be) (shutdown_signal G)) (\<lambda>_.
           io_ignore (remove_file path))))))"

section \<open>Main\<close>

record args =
  ar_endpoint :: rstr
  ar_role :: role
  ar_node_id :: rstr
  ar_data_dir :: path
  ar_mount_bin :: path
  ar_registry_scheme :: rstr
  ar_registry_insecure :: bool
  ar_capture_registry :: "rstr option"

text \<open>What \<open>clap\<close> found for each option, on the command line or else in the environment variable; an
  option found nowhere has the default of its \<open>arg\<close> attribute.\<close>

record cli =
  cl_endpoint :: "rstr option"
  cl_role :: "role option"
  cl_node_id :: "rstr option"
  cl_data_dir :: "path option"
  cl_mount_bin :: "path option"
  cl_registry_scheme :: "rstr option"
  cl_registry_insecure :: "bool option"
  cl_capture_registry :: "rstr option"

definition or_default :: "'a option \<Rightarrow> 'a \<Rightarrow> 'a" where
  "or_default v d = (case v of Some x \<Rightarrow> x | None \<Rightarrow> d)"

definition args_parse :: "cli \<Rightarrow> args" where
  "args_parse c =
     \<lparr>ar_endpoint = or_default (cl_endpoint c) (str ''unix:///csi/csi.sock''),
      ar_role = or_default (cl_role c) All,
      ar_node_id = or_default (cl_node_id c) [],
      ar_data_dir = or_default (cl_data_dir c) (str ''/var/lib/rspacefs-csi''),
      ar_mount_bin = or_default (cl_mount_bin c) (str ''rspacefs-mount''),
      ar_registry_scheme = or_default (cl_registry_scheme c) (str ''https''),
      ar_registry_insecure = or_default (cl_registry_insecure c) False,
      ar_capture_registry = cl_capture_registry c\<rparr>"

datatype main_error = NodeIdRequired | RegistryInit registry_error | ServeFailed serve_error

definition main ::
  "'h oci_libs \<Rightarrow> ctl_libs \<Rightarrow> (bool \<Rightarrow> http_error + 'x http) \<Rightarrow> 'x spawner \<Rightarrow> 'x sock_ops \<Rightarrow>
   'x transport \<Rightarrow> 'x signal_ops \<Rightarrow> cli \<Rightarrow> ('x world, main_error, unit) io" where
  "main L J build spawn S T G c =
     (let a = args_parse c
      in if serves_node (ar_role a) \<and> ar_node_id a = [] then io_err NodeIdRequired
      else
        let cfg = \<lparr>node_id = ar_node_id a, data_dir = ar_data_dir a,
                   capture_registry = ar_capture_registry a\<rparr>
        in io_bind
             (io_lift (res_map_err RegistryInit (oci_new build (ar_registry_scheme a) (ar_registry_insecure a))))
             (\<lambda>client.
               io_map_err ServeFailed
                 (serve T G (ar_endpoint a) (ar_role a) cfg
                   \<lparr>be_mounter = rspacefs_mounter spawn (ar_mount_bin a),
                    be_registry = oci_registry L client,
                    be_capturer = socket_control J S\<rparr>)))"

section \<open>The socket path\<close>

lemma metadata_outcome:
  assumes "metadata p w = (r, w')"
  shows "idle w w'" and "r = Inl NotFound \<Longrightarrow>
    fs_get (fs w) (loc_of (cwd w) p) = None \<or> (\<exists>k. faults w (tick w) = Some (Fault NotFound k))"
  using assms
  by (auto simp: idle_def fs_same_def metadata_def syscall_def Let_def
    split: option.splits fault.splits)

text \<open>Faults that do not pretend that a file is missing.\<close>

definition honest :: "'x world \<Rightarrow> bool" where
  "honest w \<longleftrightarrow> (\<forall>n k. faults w n \<noteq> Some (Fault NotFound k))"

lemma remove_if_socket_Inr:
  assumes "remove_if_socket p w = (Inr u, w')" and "honest w"
  shows "fs_get (fs w') (loc_of (cwd w) p) = None \<and> cwd w' = cwd w"
proof -
  obtain r w1 where md: "metadata p w = (r, w1)" by fastforce
  have i: "idle w w1" by (rule metadata_outcome(1) [OF md])
  show ?thesis
  proof (cases r)
    case (Inl e)
    with assms md have "e = NotFound" "w' = w1" by (auto simp: remove_if_socket_def split: if_splits)
    with Inl metadata_outcome(2) [OF md] assms(2) i show ?thesis
      by (auto simp: honest_def idle_def fs_same_def)
  next
    case (Inr v)
    with assms md have rm: "remove_file p w1 = (Inr u, w')" by (simp add: remove_if_socket_def)
    from remove_file_Inr [OF rm] cwd_calls(7) [of p w1] rm i show ?thesis
      by (simp add: idle_def fs_same_def)
  qed
qed

lemma serve_Inr:
  assumes "serve T G endpoint r cfg be w = (Inr u, w')"
  obtains w1 w2 w3 w4 where
    "(case path_parent (endpoint_path endpoint) of
        Some parent \<Rightarrow> if parent \<noteq> [] then io_map_err ServeIo (create_dir_all parent) else io_ok ()
      | None \<Rightarrow> io_ok ()) w = (Inr (), w1)"
    and "remove_if_socket (endpoint_path endpoint) w1 = (Inr (), w2)"
    and "tr_bind T (endpoint_path endpoint) w2 = (Inr (), w3)"
    and "tr_serve T (make_router r cfg be) (shutdown_signal G) w3 = (Inr (), w4)"
    and "w' = snd (remove_file (endpoint_path endpoint) w4)"
  using assms by (auto simp: serve_def Let_def io_bind_eq_Inr)

lemma ensure_socket_dir_frame:
  assumes "(case path_parent p of
      Some parent \<Rightarrow> if parent \<noteq> [] then io_map_err ServeIo (create_dir_all parent) else io_ok ()
    | None \<Rightarrow> io_ok ()) w = (r, w')"
  shows "cwd w' = cwd w \<and> faults w' = faults w"
proof (cases "\<exists>q. path_parent p = Some q \<and> q \<noteq> []")
  case True
  then obtain q where "path_parent p = Some q" "q \<noteq> []" by blast
  with assms have "w' = snd (io_map_err ServeIo (create_dir_all q) w)" by simp
  then show ?thesis by (simp add: frame_simps)
next
  case False
  with assms show ?thesis by (auto split: option.splits)
qed

lemma make_router_services:
  "rt_controller (make_router r cfg be) =
     (if r = Node then None
      else Some \<lparr>ct_cfg = cfg, ct_registry = be_registry be, ct_capturer = be_capturer be\<rparr>)"
  "rt_node (make_router r cfg be) =
     (if r = Controller then None
      else Some \<lparr>ns_cfg = cfg, ns_mounter = be_mounter be, ns_registry = be_registry be,
                 ns_capturer = be_capturer be\<rparr>)"
  by (cases r; simp add: make_router_def serves_controller_def serves_node_def)+

section \<open>Properties\<close>

text \<open>
  The server never binds over a leftover: when it has served, the endpoint path was free when
  the socket was bound (faults that pretend a file is missing apart), the services of the role were
  served on it, and the path was given up at the end.
\<close>

lemma serve_binds_free_path:
  assumes "serve T G endpoint r cfg be w = (Inr (), w')"
  obtains v v' u where "tr_bind T (endpoint_path endpoint) v = (Inr (), v')"
    and "honest w \<longrightarrow> fs_get (fs v) (loc_of (cwd w) (endpoint_path endpoint)) = None"
    and "tr_serve T (make_router r cfg be) (shutdown_signal G) v' = (Inr (), u)"
    and "w' = snd (remove_file (endpoint_path endpoint) u)"
  using assms(1)
proof (cases rule: serve_Inr)
  case (1 w1 w2 w3 w4)
  have frame: "cwd w1 = cwd w \<and> faults w1 = faults w" by (rule ensure_socket_dir_frame [OF 1(1)])
  have "honest w \<longrightarrow> fs_get (fs w2) (loc_of (cwd w) (endpoint_path endpoint)) = None"
    using remove_if_socket_Inr [OF 1(2)] frame by (auto simp: honest_def)
  from that [OF 1(3) this 1(4,5)] show thesis .
qed

text \<open>A server that polls the shutdown future once and a terminal that has already sent \<open>SIGINT\<close>.\<close>

definition poll_once :: "'x router \<Rightarrow> (shutdown \<Rightarrow> ('x world, rstr, shutdown) io) \<Rightarrow> ('x world, serve_error, unit) io" where
  "poll_once rt poll =
     io_bind (io_map_err Panic (poll Unpolled))
       (\<lambda>s. case s of Resolved _ \<Rightarrow> io_ok () | _ \<Rightarrow> io_err (Transport []))"

definition toy_signals :: "'x signal_ops" where
  "toy_signals = \<lparr>sg_signal = (\<lambda>k. io_ok ()), sg_recv = (\<lambda>k w. (k = SIGINT, w)), sg_branch = (\<lambda>w. SIGTERM)\<rparr>"

definition toy_transport :: "unit transport" where
  "toy_transport = \<lparr>tr_bind = (\<lambda>p. io_ok ()), tr_serve = poll_once\<rparr>"

definition toy_backends :: "unit backends" where
  "toy_backends =
     \<lparr>be_mounter = rspacefs_mounter ok_spawn (str ''m''), be_registry = oci_registry toy_libs toy_client,
      be_capturer = file_capturer\<rparr>"

text \<open>
  C32. The process serves what its role says and nothing else: \<open>main\<close> fails at once, with nothing done,
  for a role with the node service and an empty node id; and when it ends normally, it has served
  exactly the services of the role, on the configuration of the command line, with the OCI client,
  the \<open>rspacefs-mount\<close> wrapper and the control-socket client behind both.
\<close>

theorem main_serves_role:
  assumes "main L J build spawn S T G c w = (r, w')" and "a = args_parse c"
  shows "(serves_node (ar_role a) \<and> ar_node_id a = [] \<longrightarrow> r = Inl NodeIdRequired \<and> w' = w) \<and>
    (r = Inr () \<longrightarrow>
      (\<exists>client rt v v'. oci_new build (ar_registry_scheme a) (ar_registry_insecure a) = Inr client \<and>
        tr_serve T rt (shutdown_signal G) v = (Inr (), v') \<and>
        rt_controller rt =
          (if ar_role a = Node then None
           else Some \<lparr>ct_cfg = \<lparr>node_id = ar_node_id a, data_dir = ar_data_dir a,
                                 capture_registry = ar_capture_registry a\<rparr>,
                      ct_registry = oci_registry L client, ct_capturer = socket_control J S\<rparr>) \<and>
        rt_node rt =
          (if ar_role a = Controller then None
           else Some \<lparr>ns_cfg = \<lparr>node_id = ar_node_id a, data_dir = ar_data_dir a,
                                 capture_registry = ar_capture_registry a\<rparr>,
                      ns_mounter = rspacefs_mounter spawn (ar_mount_bin a),
                      ns_registry = oci_registry L client, ns_capturer = socket_control J S\<rparr>)))"
proof (cases "serves_node (ar_role a) \<and> ar_node_id a = []")
  case True
  with assms show ?thesis by (auto simp: main_def Let_def)
next
  case False
  let ?cfg = "\<lparr>node_id = ar_node_id a, data_dir = ar_data_dir a, capture_registry = ar_capture_registry a\<rparr>"
  let ?be = "\<lambda>client. \<lparr>be_mounter = rspacefs_mounter spawn (ar_mount_bin a),
    be_registry = oci_registry L client, be_capturer = socket_control J S\<rparr>"
  have "\<exists>client v v'. oci_new build (ar_registry_scheme a) (ar_registry_insecure a) = Inr client \<and>
    tr_serve T (make_router (ar_role a) ?cfg (?be client)) (shutdown_signal G) v = (Inr (), v')" if "r = Inr ()"
    using assms False that by (auto simp: main_def Let_def io_bind_eq_Inr elim!: serve_Inr) blast+
  then have "\<exists>client rt v v'. oci_new build (ar_registry_scheme a) (ar_registry_insecure a) = Inr client \<and>
    tr_serve T rt (shutdown_signal G) v = (Inr (), v') \<and> rt = make_router (ar_role a) ?cfg (?be client)" if "r = Inr ()"
    using that by blast
  with False show ?thesis by (fastforce simp: make_router_services)
qed

definition toy_cli :: cli where
  "toy_cli =
     \<lparr>cl_endpoint = Some (str ''/s''), cl_role = Some Controller, cl_node_id = None, cl_data_dir = None,
      cl_mount_bin = None, cl_registry_scheme = None, cl_registry_insecure = None, cl_capture_registry = None\<rparr>"

definition toy_sock :: "unit sock_ops" where
  "toy_sock =
     \<lparr>sk_connect = \<lambda>_. io_ok 0, sk_write_all = \<lambda>_ _. io_ok (), sk_flush = \<lambda>_. io_ok (),
      sk_read_line = \<lambda>_. io_ok []\<rparr>"

abbreviation toy_main :: "cli \<Rightarrow> (unit world, main_error, unit) io" where
  "toy_main \<equiv> main toy_libs toy_ctl (\<lambda>_. Inr toy_http) ok_spawn toy_sock toy_transport toy_signals"

theorem main_serves_role_witness:
  "\<exists>w' client rt v v'. toy_main toy_cli (toy_world []) = (Inr (), w') \<and>
     oci_new (\<lambda>_. Inr toy_http) (str ''https'') False = Inr client \<and>
     tr_serve toy_transport rt (shutdown_signal toy_signals) v = (Inr (), v') \<and>
     rt_controller rt =
       Some \<lparr>ct_cfg = \<lparr>node_id = [], data_dir = str ''/var/lib/rspacefs-csi'', capture_registry = None\<rparr>,
             ct_registry = oci_registry toy_libs client, ct_capturer = socket_control toy_ctl toy_sock\<rparr> \<and>
     rt_node rt = None"
proof -
  have "fst (toy_main toy_cli (toy_world [])) = Inr ()" by code_simp
  then obtain w' where run: "toy_main toy_cli (toy_world []) = (Inr (), w')" by (rule fst_eqE)
  have "ar_role (args_parse toy_cli) = Controller" by (simp add: args_parse_def toy_cli_def or_default_def)
  with main_serves_role [OF run refl] run show ?thesis
    by (auto simp: args_parse_def toy_cli_def or_default_def)
qed

text \<open>Started with no option at all, the driver takes the role \<open>All\<close>, has no node id, and refuses.\<close>

lemma default_start_refused:
  assumes "cl_role c = None" and "cl_node_id c = None"
  shows "main L J build spawn S T G c w = (Inl NodeIdRequired, w)"
  using assms by (simp add: main_def args_parse_def or_default_def serves_node_def)

text \<open>
  Clearing the endpoint is not limited to sockets: a regular file at the endpoint path is deleted
  all the same.
\<close>

lemma remove_if_socket_deletes_files:
  assumes "fs_get (fs w) (loc_of (cwd w) p) = Some (File b)" and "\<And>n. faults w n = None"
  shows "fst (remove_if_socket p w) = Inr () \<and>
    fs_get (fs (snd (remove_if_socket p w))) (loc_of (cwd w) p) = None"
proof -
  from assms(1) have "loc_of (cwd w) p \<noteq> []" by auto
  with assms show ?thesis
    by (simp add: remove_if_socket_def metadata_def remove_file_def syscall_def Let_def fs_remove_file_def)
qed

end
