(* ===== verification/Lifecycle.thy ===== *)
theory Lifecycle
  imports Server
begin

text \<open>
  The driver over time: the calls of the orchestrator as steps of a state machine, one handler after
  another, with whatever happens between two calls as an environment relation; the locale
  \<open>call_invariant\<close>, which turns a property that every call of the handlers keeps into an invariant of
  all reachable worlds; that invariant for the blob caches; and the abstract view of the node, the set of published volumes with their
  contexts, which the publish states on disk implement.
\<close>

datatype rpc =
    CreateVolume create_volume_request
  | DeleteVolume rstr
  | CreateSnapshot create_snapshot_request
  | DeleteSnapshot rstr
  | NodePublish node_publish_request
  | NodeUnpublish node_unpublish_request

text \<open>One call, served by the router of \<open>serve\<close>; a call to a service that the role does not serve
  does not reach the driver.\<close>

inductive rpc_step :: "ctx_libs \<Rightarrow> 'x router \<Rightarrow> 'x world \<Rightarrow> rpc \<Rightarrow> 'x world \<Rightarrow> bool"
  for J :: ctx_libs and rt :: "'x router" where
  create_volume: "rt_controller rt = Some svc \<Longrightarrow> create_volume svc q w = (r, w') \<Longrightarrow>
    rpc_step J rt w (CreateVolume q) w'"
| delete_volume: "rt_controller rt = Some svc \<Longrightarrow> delete_volume v w = (r, w') \<Longrightarrow>
    rpc_step J rt w (DeleteVolume v) w'"
| create_snapshot: "rt_controller rt = Some svc \<Longrightarrow> create_snapshot svc s w = (r, w') \<Longrightarrow>
    rpc_step J rt w (CreateSnapshot s) w'"
| delete_snapshot: "rt_controller rt = Some svc \<Longrightarrow> delete_snapshot i w = (r, w') \<Longrightarrow>
    rpc_step J rt w (DeleteSnapshot i) w'"
| node_publish: "rt_node rt = Some ns \<Longrightarrow> node_publish_volume J ns p w = (r, w') \<Longrightarrow>
    rpc_step J rt w (NodePublish p) w'"
| node_unpublish: "rt_node rt = Some ns \<Longrightarrow> node_unpublish_volume J ns u w = (r, w') \<Longrightarrow>
    rpc_step J rt w (NodeUnpublish u) w'"

inductive_simps node_publish_step: "rpc_step J rt w (NodePublish p) w'"
inductive_simps node_unpublish_step: "rpc_step J rt w (NodeUnpublish u) w'"

inductive reachable ::
  "ctx_libs \<Rightarrow> 'x router \<Rightarrow> ('x world \<Rightarrow> 'x world \<Rightarrow> bool) \<Rightarrow> 'x world \<Rightarrow> 'x world \<Rightarrow> bool"
  for J :: ctx_libs and rt :: "'x router" and env :: "'x world \<Rightarrow> 'x world \<Rightarrow> bool" and w0 :: "'x world" where
  start: "reachable J rt env w0 w0"
| call: "reachable J rt env w0 w \<Longrightarrow> rpc_step J rt w c w' \<Longrightarrow> reachable J rt env w0 w'"
| between: "reachable J rt env w0 w \<Longrightarrow> env w w' \<Longrightarrow> reachable J rt env w0 w'"

text \<open>An invariant that every handler and the environment keep holds in every reachable world.\<close>

lemma reachable_invariant:
  assumes "reachable J rt env w0 w" and "P w0"
    and "\<And>v c v'. rpc_step J rt v c v' \<Longrightarrow> P v \<Longrightarrow> P v'"
    and "\<And>v v'. env v v' \<Longrightarrow> P v \<Longrightarrow> P v'"
  shows "P w"
  using assms(1) by induction (use assms(2-4) in blast)+

lemma step_keeps:
  assumes "rpc_step J rt v c v'" and "P v"
    and "\<And>svc q. rt_controller rt = Some svc \<Longrightarrow> keeps P (create_volume svc q)"
    and "\<And>svc s. rt_controller rt = Some svc \<Longrightarrow> keeps P (create_snapshot svc s)"
    and "\<And>ns p. rt_node rt = Some ns \<Longrightarrow> keeps P (node_publish_volume J ns p)"
    and "\<And>ns u. rt_node rt = Some ns \<Longrightarrow> keeps P (node_unpublish_volume J ns u)"
  shows "P v'"
  using assms(1)
proof cases
  case (create_volume svc q r)
  from keepsD' [OF assms(3) [OF create_volume(2)] create_volume(3) assms(2)] show ?thesis .
next
  case (create_snapshot svc s r)
  from keepsD' [OF assms(4) [OF create_snapshot(2)] create_snapshot(3) assms(2)] show ?thesis .
next
  case (node_publish ns p r)
  from keepsD' [OF assms(5) [OF node_publish(2)] node_publish(3) assms(2)] show ?thesis .
next
  case (node_unpublish ns u r)
  from keepsD' [OF assms(6) [OF node_unpublish(2)] node_unpublish(3) assms(2)] show ?thesis .
qed (use assms(2) in \<open>auto simp: delete_volume_def delete_snapshot_def split: if_splits\<close>)

section \<open>Invariants of the driver\<close>

text \<open>
  What makes a property of worlds an invariant of the driver: the calls that the handlers make on the
  file system, outside the registry client, keep it, and so do the three operations of the client.
  The writes of the node are those of publish states.
\<close>

locale call_invariant =
  fixes P :: "'x world \<Rightarrow> bool" and R :: "'x registry_ops"
  assumes same: "fs_same v w \<Longrightarrow> P v \<Longrightarrow> P w"
    and create_dir_all: "keeps P (create_dir_all p)"
    and remove_file: "keeps P (remove_file p)"
    and remove_dir: "keeps P (remove_dir p)"
    and write_state: "keeps P (write_file (state_path cfg vol) b)"
    and resolve: "keeps P (reg_resolve R seed)"
    and pull: "keeps P (reg_pull_layers R seed dir)"
    and push: "keeps P (reg_push_revision R t p d n)"
begin

lemma of_same: "stays fs_same m \<Longrightarrow> keeps P m"
  using same by (auto simp: stays_def keeps_def)

lemma kept_pull_seeds: "keeps P (pull_seeds R dir sds bs)"
  by (induction sds arbitrary: bs) (auto intro!: keeps_bind pull)

lemma kept_resolve_seeds: "keeps P (resolve_seeds R sds)"
  by (induction sds) (auto intro!: keeps_bind resolve)

lemma kept_persist: "keeps P (persist_state J cfg v c)"
  unfolding persist_state_def Let_def
  by (cases "path_parent (state_path cfg v)") (auto intro!: keeps_bind write_state create_dir_all)

lemma kept_load: "keeps P (load_state J cfg v)"
  by (rule of_same, rule stays_mono [OF load_state_idle]) (simp add: idle_def)

lemma kept_freeze:
  assumes "\<And>a b. keeps P (cap_capture C a b)"
  shows "keeps P (freeze_and_push C R so st t)"
  unfolding freeze_and_push_def ensure_parent_def
  by (cases "path_parent st") (auto intro!: keeps_bind assms create_dir_all remove_file push)

lemma kept_create_volume:
  assumes "ct_registry svc = R"
  shows "keeps P (create_volume svc q)"
  unfolding create_volume_def Let_def assms by (auto intro!: keeps_bind kept_resolve_seeds)

lemma kept_snapshot:
  assumes "\<And>a b. keeps P (cap_capture (ct_capturer svc) a b)" and "ct_registry svc = R"
  shows "keeps P (create_snapshot svc s)"
proof -
  have "keeps P (path_exists p)" for p by (rule of_same) simp
  then show ?thesis unfolding create_snapshot_def assms(2)
    by (auto intro!: keeps_bind kept_freeze [OF assms(1)])
qed

lemma kept_publish:
  assumes "\<And>s. keeps P (mnt_mount (ns_mounter ns) s)" and "ns_registry ns = R"
  shows "keeps P (node_publish_volume J ns p)"
  unfolding node_publish_volume_def assms(2)
  by (auto intro!: keeps_bind kept_pull_seeds create_dir_all kept_persist assms(1))

lemma kept_unpublish:
  assumes "\<And>t. keeps P (mnt_unmount (ns_mounter ns) t)"
    and "\<And>a b. keeps P (cap_capture (ns_capturer ns) a b)" and "ns_registry ns = R"
  shows "keeps P (node_unpublish_volume J ns u)"
proof -
  have "keeps P (freeze_on_unpublish ns v c' params)" for v c' params
    unfolding freeze_on_unpublish_def assms(3)
    by (auto intro!: keeps_bind kept_freeze [OF assms(2)])
  then have "keeps P (capture_if_asked ns v s)" for v s
    by (simp add: capture_if_asked_def split: option.split sum.split)
  then show ?thesis
    unfolding node_unpublish_volume_def
    by (auto intro!: keeps_bind assms(1) kept_load remove_file remove_dir)
qed

end

text \<open>External programs that keep a property: the named assumption on the mount program, the unmount
  helpers and the capture daemon.\<close>

definition backends_keep :: "('x world \<Rightarrow> bool) \<Rightarrow> 'x backends \<Rightarrow> bool" where
  "backends_keep P be \<longleftrightarrow>
     (\<forall>s. keeps P (mnt_mount (be_mounter be) s)) \<and>
     (\<forall>t. keeps P (mnt_unmount (be_mounter be) t)) \<and>
     (\<forall>a b. keeps P (cap_capture (be_capturer be) a b))"

context call_invariant
begin

lemma kept_step:
  assumes "rpc_step J (make_router r cfg be) v k v'" and "P v"
    and "be_registry be = R" and "backends_keep P be"
  shows "P v'"
  using assms(1,2)
proof (rule step_keeps)
  fix svc q assume "rt_controller (make_router r cfg be) = Some svc"
  then have "ct_registry svc = R" "ct_capturer svc = be_capturer be"
    using assms(3) by (auto simp: make_router_services split: if_splits)
  then show "keeps P (create_volume svc q)" "keeps P (create_snapshot svc s)" for s
    using assms(4) by (auto intro!: kept_create_volume kept_snapshot simp: backends_keep_def)
next
  fix ns p assume "rt_node (make_router r cfg be) = Some ns"
  then have "ns_registry ns = R" "ns_mounter ns = be_mounter be" "ns_capturer ns = be_capturer be"
    using assms(3) by (auto simp: make_router_services split: if_splits)
  then show "keeps P (node_publish_volume J ns p)" "keeps P (node_unpublish_volume J ns u)" for u
    using assms(4) by (auto intro!: kept_publish kept_unpublish simp: backends_keep_def)
qed

lemma kept_reachable:
  assumes "reachable J (make_router r cfg be) env w0 w" and "P w0"
    and "be_registry be = R" and "backends_keep P be"
    and "\<And>v v'. env v v' \<Longrightarrow> P v \<Longrightarrow> P v'"
  shows "P w"
  using assms(1,2)
proof (rule reachable_invariant)
  fix v k v' assume "rpc_step J (make_router r cfg be) v k v'" "P v"
  then show "P v'" using assms(3,4) by (rule kept_step)
qed (rule assms(5))

end

text \<open>Two invariants are one.\<close>

lemma call_invariant_conj:
  fixes R :: "'x registry_ops"
  assumes "call_invariant P R" and "call_invariant Q R"
  shows "call_invariant (\<lambda>w. P w \<and> Q w) R"
proof -
  note p = call_invariant.create_dir_all [OF assms(1)] call_invariant.remove_file [OF assms(1)]
    call_invariant.remove_dir [OF assms(1)] call_invariant.write_state [OF assms(1)]
    call_invariant.resolve [OF assms(1)] call_invariant.pull [OF assms(1)] call_invariant.push [OF assms(1)]
  note q = call_invariant.create_dir_all [OF assms(2)] call_invariant.remove_file [OF assms(2)]
    call_invariant.remove_dir [OF assms(2)] call_invariant.write_state [OF assms(2)]
    call_invariant.resolve [OF assms(2)] call_invariant.pull [OF assms(2)] call_invariant.push [OF assms(2)]
  note s = call_invariant.same [OF assms(1)] call_invariant.same [OF assms(2)]
  show ?thesis by unfold_locales (use s p q in \<open>auto simp: keeps_def\<close>)
qed

section \<open>The caches\<close>

text \<open>The invariant of all blob caches, and the operations that keep it.\<close>

definition caches_ok :: "'h oci_libs \<Rightarrow> 'x world \<Rightarrow> bool" where
  "caches_ok L w \<longleftrightarrow> (\<forall>l. cas_ok L l (fs w))"

lemma caches_fewer_files:
  assumes "\<And>l b. fs_get (fs w') l = Some (File b) \<Longrightarrow> fs_get (fs w) l = Some (File b)" and "caches_ok L w"
  shows "caches_ok L w'"
  using assms unfolding caches_ok_def cas_ok_def by blast

lemma remove_file_fewer:
  "fs_get (fs (snd (remove_file p w))) l = Some n \<Longrightarrow> fs_get (fs w) l = Some n"
  "fs_get (fs (snd (remove_dir p w))) l = Some n \<Longrightarrow> fs_get (fs w) l = Some n"
  by (cases "l = loc_of (cwd w) p";
      auto simp: remove_file_get remove_dir_get remove_file_def remove_dir_def syscall_def Let_def
        fs_remove_file_get dest: fs_remove_dir_get [where k = l]
        split: option.splits fault.splits sum.splits if_splits)+

lemma caches_calls [simp]:
  "keeps (caches_ok L) (create_dir_all p)" "keeps (caches_ok L) (remove_file p)"
  "keeps (caches_ok L) (remove_dir p)"
  by (auto intro!: keepsI elim!: caches_fewer_files [rotated] dest: create_dir_all_file remove_file_fewer)

lemma caches_same: "stays fs_same m \<Longrightarrow> keeps (caches_ok L) m"
  by (simp add: stays_def keeps_def fs_same_def caches_ok_def)

lemma state_not_blob [simp]: "n @ str ''.blob'' \<noteq> str ''publish.json''"
proof
  assume "n @ str ''.blob'' = str ''publish.json''"
  then have "last (n @ str ''.blob'') = last (str ''publish.json'')" by simp
  then show False by (simp add: lit_simps)
qed

lemma caches_write_state: "keeps (caches_ok L) (write_file (state_path cfg v) b)"
  by (auto intro!: keepsI simp: caches_ok_def cas_ok_def write_file_get)

text \<open>With hashing and encoding as documented, the caches are an invariant of the driver.\<close>

lemma caches_invariant:
  assumes "sha_incremental L" and "hex_digits L"
  shows "call_invariant (caches_ok L) (oci_registry L c)"
proof
  show "keeps (caches_ok L) (reg_pull_layers (oci_registry L c) seed dir)" for seed dir
    by (auto simp: keeps_def caches_ok_def oci_registry_def intro: oci_pull_cas [OF assms])
qed (simp_all add: caches_write_state caches_same oci_registry_def, simp add: caches_ok_def fs_same_def)

section \<open>The published volumes\<close>

text \<open>
  The abstract state of a node: the volumes it holds published, each with the context it was
  published with. The publish states on disk implement it; \<open>published\<close> is the abstraction function.
\<close>

type_synonym published_map = "rstr \<rightharpoonup> ctx"

definition published :: "ctx_libs \<Rightarrow> config \<Rightarrow> 'x world \<Rightarrow> published_map" where
  "published J cfg w v =
     (case fs_get (fs w) (loc_of (cwd w) (state_path cfg v)) of
        Some (File b) \<Rightarrow> ctx_from_slice J b
      | _ \<Rightarrow> None)"

text \<open>Two worlds with the same publish states: the same files named \<open>publish.json\<close>.\<close>

definition states_same :: "'x world \<Rightarrow> 'x world \<Rightarrow> bool" where
  "states_same w w' \<longleftrightarrow> cwd w' = cwd w \<and>
     (\<forall>l b. fs_get (fs w') (l @ [str ''publish.json'']) = Some (File b) \<longleftrightarrow>
            fs_get (fs w) (l @ [str ''publish.json'']) = Some (File b))"

interpretation fstate: frame_rel states_same
  by unfold_locales (auto simp: states_same_def)

text \<open>The state as a function of the file at its place.\<close>

lemma published_alt:
  "published J cfg w v =
     (if \<exists>b. fs_get (fs w) (loc_of (cwd w) (state_path cfg v)) = Some (File b)
      then ctx_from_slice J (THE b. fs_get (fs w) (loc_of (cwd w) (state_path cfg v)) = Some (File b))
      else None)"
  by (auto simp: published_def split: option.splits node.splits)

lemma published_same: "states_same w w' \<Longrightarrow> published J cfg w' v = published J cfg w v"
  by (simp add: published_alt states_same_def)

lemma foreign_publish_json: "foreign_name (str ''publish.json'')"
proof -
  have "last (str ''publish.json'') \<noteq> last (a @ str ''.blob'')"
    "last (str ''publish.json'') \<noteq> last (a @ str ''.partial'')" for a
    by (simp_all add: lit_simps)
  then show ?thesis by (metis foreign_name_def)
qed

lemma cache_step_states: "cache_step w w' \<Longrightarrow> states_same w w'"
  using foreign_publish_json unfolding cache_step_def states_same_def by (metis option.discI)

lemma fs_same_states: "fs_same w w' \<Longrightarrow> states_same w w'"
  by (simp add: fs_same_def states_same_def)

lemma only_at_states:
  "only_at p w w' \<Longrightarrow> (\<And>l. loc_of (cwd w) p \<noteq> l @ [str ''publish.json'']) \<Longrightarrow> states_same w w'"
  by (auto simp: only_at_def states_same_def) metis+

lemma remove_dir_states: "stays states_same (remove_dir p)"
  by (auto simp: stays_def states_same_def frame_simps remove_dir_file dest: remove_file_fewer(2))

lemma staging_states: "stays states_same (remove_file (capture_staging cfg v))"
proof (rule staysI, rule only_at_states)
  fix w :: "'x world" and l
  show "only_at (capture_staging cfg v) w (snd (remove_file (capture_staging cfg v) w))"
    by (rule staysD) simp
  show "loc_of (cwd w) (capture_staging cfg v) \<noteq> l @ [str ''publish.json'']" by simp
qed

text \<open>External programs that leave the publish states alone: the named assumption on the mount
  program, the unmount helpers and the capture daemon.\<close>

definition state_safe :: "'x node_service \<Rightarrow> bool" where
  "state_safe ns \<longleftrightarrow>
     (\<forall>s. stays states_same (mnt_mount (ns_mounter ns) s)) \<and>
     (\<forall>t. stays states_same (mnt_unmount (ns_mounter ns) t)) \<and>
     (\<forall>a b. stays states_same (cap_capture (ns_capturer ns) a b))"

lemma persist_states:
  assumes "plain_name v" and "plain_name u" and "u \<noteq> v"
  shows "published J cfg (snd (persist_state J' cfg v c w)) u = published J cfg w u"
proof -
  let ?l = "loc_of (cwd w) (state_path cfg u)"
  let ?P = "\<lambda>w'. cwd w' = cwd w \<and>
    (\<forall>b. fs_get (fs w') ?l = Some (File b) \<longleftrightarrow> fs_get (fs w) ?l = Some (File b))"
  have "?l \<noteq> loc_of (cwd w) (state_path cfg v)" using assms by simp
  then have "keeps ?P (write_file (state_path cfg v) b)" for b
    by (simp add: keeps_def frame_simps write_file_get)
  moreover have "keeps ?P (create_dir_all p)" for p
    by (simp add: keeps_def frame_simps)
  ultimately have "keeps ?P (persist_state J' cfg v c)"
    unfolding persist_state_def Let_def
    by (cases "path_parent (state_path cfg v)") (auto intro!: keeps_bind)
  then have "?P (snd (persist_state J' cfg v c w))" by (rule keepsD) simp
  then show ?thesis by (simp add: published_alt)
qed

lemma persist_own_state:
  assumes "persist_state J cfg v c w = (Inr u, w')" and "ctx_codec J"
  shows "published J cfg w' v = Some c"
  using persist_state_Inr [OF assms(1)] assms(2) by (auto simp: published_def ctx_codec_def)

lemma remove_states:
  assumes "plain_name v" and "plain_name u" and "u \<noteq> v"
  shows "published J cfg (snd (remove_file (state_path cfg v) w)) u = published J cfg w u"
  using assms by (simp add: published_def frame_simps remove_file_get)

lemma remove_own_state:
  assumes "remove_file (state_path cfg v) w = (Inr u, w')"
  shows "published J cfg w' v = None"
  using remove_file_Inr [OF assms] cwd_calls(7) [of "state_path cfg v" w] assms
  by (simp add: published_def)

context registry_contract
begin

lemma pull_seeds_states: "stays states_same (pull_seeds R dir sds bs)"
  by (rule stays_mono [OF pull_seeds_cache]) (rule cache_step_states)

lemma freeze_states:
  assumes "\<And>a b. stays states_same (cap_capture C a b)"
  shows "stays states_same (freeze_and_push C R so (capture_staging cfg v) t)"
proof -
  have "stays states_same (reg_push_revision R t p d n)" for p d n
    by (rule stays_mono [OF push_same]) (rule fs_same_states)
  moreover have "stays states_same (create_dir_all p)" for p
    by (rule stays_mono [OF create_dir_all_cache]) (rule cache_step_states)
  ultimately show ?thesis unfolding freeze_and_push_def ensure_parent_def
    using assms staging_states
    by (cases "path_parent (capture_staging cfg v)")
      (auto intro!: fstate.bind simp: fstate.ok fstate.pair)
qed

lemma dir_states: "stays states_same (create_dir_all p)"
  by (rule stays_mono [OF create_dir_all_cache]) (rule cache_step_states)

lemma publish_states:
  assumes reg: "ns_registry ns = R" and safe: "state_safe ns"
    and run: "node_publish_volume J ns req w = (r, w')"
  shows "(\<exists>st. r = Inl st \<and> states_same w w') \<or>
    (\<exists>v. r = Inr () \<and> states_same w v \<and>
       w' = snd (persist_state J (ns_cfg ns) (np_volume_id req) (np_volume_context req) v))"
proof (cases r)
  case (Inr u)
  with run obtain params blobs w1 w2 w3 w4 where
    p: "pull_seeds R (lowers_dir (ns_cfg ns) (np_volume_id req)) (seeds params) [] w = (Inr blobs, w1)"
    and a: "create_dir_all (upper_dir (ns_cfg ns) (np_volume_id req)) w1 = (Inr (), w2)"
    and b: "create_dir_all (np_target_path req) w2 = (Inr (), w3)"
    and m: "mnt_mount (ns_mounter ns) (publish_spec (ns_cfg ns) req params blobs) w3 = (Inr (), w4)"
    and w': "w' = snd (persist_state J (ns_cfg ns) (np_volume_id req) (np_volume_context req) w4)"
    using reg by (auto elim!: node_publish_Inr)
  have mnt: "stays states_same (mnt_mount (ns_mounter ns) s)" for s using safe by (simp add: state_safe_def)
  have "states_same w w4"
    using staysD' [OF pull_seeds_states p] staysD' [OF dir_states a] staysD' [OF dir_states b]
      staysD' [OF mnt m] by (meson fstate.R_trans)
  with w' Inr show ?thesis by auto
next
  case (Inl st)
  let ?body = "\<lambda>params.
    io_bind (pull_seeds R (lowers_dir (ns_cfg ns) (np_volume_id req)) (seeds params) []) (\<lambda>blobs.
    io_bind (io_map_err (\<lambda>e. internal (IoMsg (str ''create upper'') e))
      (create_dir_all (upper_dir (ns_cfg ns) (np_volume_id req)))) (\<lambda>_.
    io_bind (io_map_err (\<lambda>e. internal (IoMsg (str ''create target'') e)) (create_dir_all (np_target_path req))) (\<lambda>_.
    io_map_err (\<lambda>e. internal (MountMsg (str ''rspacefs-mount'') e))
      (mnt_mount (ns_mounter ns) (publish_spec (ns_cfg ns) req params blobs)))))"
  have st: "stays states_same (?body params)" for params
    using safe by (auto intro!: fstate.bind pull_seeds_states dir_states simp: state_safe_def)
  have split: "node_publish_volume J ns req w =
    io_bind (?body params) (\<lambda>_. io_ignore
      (persist_state J (ns_cfg ns) (np_volume_id req) (np_volume_context req))) w"
    if "np_volume_id req \<noteq> []" "np_target_path req \<noteq> []" "pvc_parse (np_volume_context req) = Inr params"
    for params
    using that by (simp add: node_publish_volume_def reg io_bind_assoc io_bind_def [of "io_lift (Inr params)"])
  have "states_same w w'"
  proof (cases "\<exists>params. np_volume_id req \<noteq> [] \<and> np_target_path req \<noteq> [] \<and>
      pvc_parse (np_volume_context req) = Inr params")
    case True
    then obtain params where c: "np_volume_id req \<noteq> []" "np_target_path req \<noteq> []"
      "pvc_parse (np_volume_context req) = Inr params" by blast
    from run [unfolded Inl split [OF c]] have "?body params w = (Inl st, w')"
      by (simp only: io_bind_ignore_Inl)
    then show ?thesis by (rule staysD' [OF st])
  next
    case False
    with run show ?thesis
      by (cases "pvc_parse (np_volume_context req)")
        (auto simp: node_publish_volume_def io_bind_def fstate.R_refl split: if_splits)
  qed
  with Inl show ?thesis by blast
qed

lemma unpublish_states:
  assumes reg: "ns_registry ns = R" and safe: "state_safe ns"
    and run: "node_unpublish_volume J ns req w = (r, w')"
  shows "(\<exists>st. r = Inl st \<and> states_same w w') \<or>
    (\<exists>v. r = Inr () \<and> states_same w v \<and>
       w' = snd (remove_file (state_path (ns_cfg ns) (nu_volume_id req)) v))"
proof (cases "nu_volume_id req = [] \<or> nu_target_path req = []")
  case True
  with run show ?thesis by (auto simp: node_unpublish_volume_def fstate.R_refl split: if_splits)
next
  case False
  obtain s w1 where ld: "load_state J (ns_cfg ns) (nu_volume_id req) w = (Inr s :: status + ctx option, w1)"
    by (metis load_state_not_Inl sumE surj_pair)
  have "states_same w w1"
    using staysD' [OF load_state_idle ld] by (simp add: idle_def fs_same_states)
  let ?pre = "io_bind (capture_if_asked ns (nu_volume_id req) s) (\<lambda>_.
    io_map_err (\<lambda>e. internal (MountMsg (str ''unmount'') e)) (mnt_unmount (ns_mounter ns) (nu_target_path req)))"
  have fr: "stays states_same (freeze_on_unpublish ns v c params)" for v c params
    unfolding freeze_on_unpublish_def reg using safe
    by (auto intro!: fstate.bind freeze_states simp: state_safe_def fstate.ok fstate.lift fstate.pair)
  have pre: "stays states_same ?pre"
    using safe fr
    by (auto intro!: fstate.bind simp: state_safe_def capture_if_asked_def fstate.ok
      split: option.split sum.split)
  obtain x w2 where x: "?pre w1 = (x, w2)" by fastforce
  have "states_same w w2"
    by (rule fstate.R_trans [OF \<open>states_same w w1\<close> staysD' [OF pre x]])
  moreover have "node_unpublish_volume J ns req w = (case x of Inl st \<Rightarrow> (Inl st, w2)
    | Inr _ \<Rightarrow> (Inr (), snd (remove_file (state_path (ns_cfg ns) (nu_volume_id req))
        (snd (remove_dir (nu_target_path req) w2)))))"
    using node_unpublish_load [of req J ns w s w1] False ld x
    by (auto simp: io_bind_def split: prod.splits sum.splits)
  moreover have "states_same w2 (snd (remove_dir (nu_target_path req) w2))"
    by (rule staysD) (rule remove_dir_states)
  ultimately show ?thesis using run by (cases x) (auto intro: fstate.R_trans)
qed

end

section \<open>Properties\<close>


definition quiet_capturer :: "'x capturer_ops" where
  "quiet_capturer = \<lparr>cap_capture = (\<lambda>socket out. io_err NoResponse)\<rparr>"

definition quiet_backends :: "unit backends" where
  "quiet_backends = toy_backends\<lparr>be_capturer := quiet_capturer\<rparr>"

lemma ok_spawn_world:
  "snd (rsp_mount ok_spawn bin s w) = w"
  "stays fs_same (rsp_unmount ok_spawn t)"
proof -
  show "snd (rsp_mount ok_spawn bin s w) = w" by (simp add: rsp_mount_def ok_spawn_def io_defs)
  have "stays fs_same (run_ok ok_spawn b a)" for b a
    by (simp add: stays_def run_ok_def ok_spawn_def fsame.R_refl)
  then show "stays fs_same (rsp_unmount ok_spawn t)"
    unfolding rsp_unmount_def io_or_def
    by (auto intro!: fsame.bind simp: fsame.ok fsame.err)
qed

lemma quiet_cache_safe: "backends_keep (caches_ok toy_libs) quiet_backends"
  using caches_same [OF ok_spawn_world(2)]
  by (auto simp: backends_keep_def quiet_backends_def toy_backends_def rspacefs_mounter_def
    quiet_capturer_def keeps_def [of _ "rsp_mount _ _ _"] ok_spawn_world(1))

definition quiet_node :: "unit node_service" where
  "quiet_node = toy_node\<lparr>ns_capturer := quiet_capturer\<rparr>"

lemma quiet_router: "rt_node (make_router All toy_cfg quiet_backends) = Some quiet_node"
  by (simp add: make_router_services quiet_backends_def toy_backends_def quiet_node_def toy_node_def)

lemma publish_any_capturer:
  "node_publish_volume J (ns\<lparr>ns_capturer := C\<rparr>) req = node_publish_volume J ns req"
  by (rule ext) (simp add: node_publish_volume_def)

lemma quiet_publish_reachable:
  assumes "node_publish_volume toy_J toy_node toy_publish (toy_world []) = (r, w')"
  shows "reachable toy_J (make_router All toy_cfg quiet_backends) (\<lambda>_ _. False) (toy_world []) w'"
proof -
  have "node_publish_volume toy_J quiet_node toy_publish (toy_world []) = (r, w')"
    using assms by (simp add: quiet_node_def publish_any_capturer)
  then have "rpc_step toy_J (make_router All toy_cfg quiet_backends) (toy_world []) (NodePublish toy_publish) w'"
    using quiet_router by (auto simp: node_publish_step)
  then show ?thesis by (rule reachable.call [OF reachable.start])
qed



lemma quiet_state_safe: "state_safe quiet_node"
  using stays_mono [OF ok_spawn_world(2), of states_same] fs_same_states
  by (auto simp: state_safe_def quiet_node_def toy_node_def rspacefs_mounter_def quiet_capturer_def
    stays_def [of _ "rsp_mount _ _ _"] ok_spawn_world(1) fstate.R_refl fstate.pair fstate.err)

lemma codec_persist: "persist_state codec_J cfg v toy_ctx = persist_state toy_J cfg v toy_ctx"
  by (simp add: persist_state_def codec_J_def toy_J_def)

lemma codec_publish:
  "node_publish_volume codec_J ns toy_publish = node_publish_volume toy_J ns toy_publish"
  by (simp add: node_publish_volume_def toy_publish_def codec_persist)




end
