(* ===== verification/File_Tree.thy ===== *)
theory File_Tree
  imports Lifecycle
begin

text \<open>
  The shape of the file system: every entry lies in a directory. The model keeps files in a flat map
  from locations to nodes, so this is an invariant and not a consequence of the type. Every call the
  driver makes keeps it, also when it fails half-way, hence every handler does and every reachable
  world is a tree.
\<close>

definition tree :: "fsys \<Rightarrow> bool" where
  "tree f \<longleftrightarrow> (\<forall>l n. l \<noteq> [] \<longrightarrow> fs_get f l = Some n \<longrightarrow> fs_get f (butlast l) = Some Dir)"

abbreviation tree_world :: "'x world \<Rightarrow> bool" where
  "tree_world w \<equiv> tree (fs w)"

lemma treeD: "tree f \<Longrightarrow> fs_get f l = Some n \<Longrightarrow> l \<noteq> [] \<Longrightarrow> fs_get f (butlast l) = Some Dir"
  by (auto simp: tree_def)

section \<open>The store\<close>

text \<open>An entry can be put where the parent is a directory, unless it replaces a directory by
  something else; an entry without entries below it can be deleted.\<close>

lemma tree_put:
  assumes "tree f" and "l \<noteq> []" and "fs_get f (butlast l) = Some Dir" and "n = Dir \<or> fs_get f l \<noteq> Some Dir"
  shows "tree (fs_put l n f)"
  unfolding tree_def
proof (intro allI impI)
  fix k m assume k: "k \<noteq> []" and get: "fs_get (fs_put l n f) k = Some m"
  have "butlast l \<noteq> l" using assms(2) by (metis append_butlast_last_id append_self_conv not_Cons_self2)
  then show "fs_get (fs_put l n f) (butlast k) = Some Dir"
    using assms get k by (cases "k = l") (auto split: if_splits dest: treeD [OF assms(1)])
qed

lemma tree_del:
  assumes "tree f" and "l \<noteq> []" and "\<And>k. k \<noteq> [] \<Longrightarrow> butlast k = l \<Longrightarrow> fs_get f k = None"
  shows "tree (fs_del l f)"
  using assms unfolding tree_def by auto

lemma tree_no_child:
  assumes "tree f" and "fs_get f l \<noteq> Some Dir" and "k \<noteq> []" and "butlast k = l"
  shows "fs_get f k = None"
  using assms treeD by fastforce

lemma tree_del_leaf: "tree f \<Longrightarrow> l \<noteq> [] \<Longrightarrow> fs_get f l \<noteq> Some Dir \<Longrightarrow> tree (fs_del l f)"
  by (rule tree_del) (use tree_no_child in blast)+

lemma no_child_get:
  assumes "\<not> fs_has_child f l" and "k \<noteq> []" and "butlast k = l"
  shows "fs_get f k = None"
proof (rule ccontr)
  assume "fs_get f k \<noteq> None"
  then obtain n where "fs_get f k = Some n" by blast
  with assms(2) have "(k, n) \<in> set f" by (auto simp: fs_get_def dest: map_of_SomeD)
  with assms show False by (auto simp: fs_has_child_def list_ex_iff)
qed

section \<open>The calls\<close>

text \<open>A list of locations each of which lies directly in the one before.\<close>

fun nested :: "loc \<Rightarrow> loc list \<Rightarrow> bool" where
  "nested p [] = True"
| "nested p (l # ls) = (l \<noteq> [] \<and> butlast l = p \<and> nested l ls)"

lemma nested_take: "nested p ls \<Longrightarrow> nested p (take n ls)"
proof (induction ls arbitrary: p n)
  case (Cons l ls)
  then show ?case by (cases n) auto
qed simp

lemma nested_map_take:
  "nested (take i l) (map (\<lambda>n. take n l) [Suc i..<Suc (i + m)])" if "i + m \<le> length l"
  using that
proof (induction m arbitrary: i)
  case (Suc m)
  have "[Suc i..<Suc (i + Suc m)] = Suc i # [Suc (Suc i)..<Suc (Suc i + m)]"
    by (simp add: upt_conv_Cons)
  moreover have "butlast (take (Suc i) l) = take i l" using Suc.prems by (simp add: butlast_take)
  moreover have "take (Suc i) l \<noteq> []" using Suc.prems by auto
  ultimately show ?case using Suc.IH [of "Suc i"] Suc.prems by simp
qed simp

lemma nested_ancestors: "nested [] (ancestors l)"
  using nested_map_take [of 0 "length l" l] by (simp add: ancestors_def)

lemma tree_mkdirs:
  assumes "mkdirs ls f = Inr f'" and "tree f" and "nested p ls" and "fs_get f p = Some Dir"
  shows "tree f'"
  using assms
proof (induction ls arbitrary: f p)
  case (Cons l ls)
  show ?case
  proof (cases "fs_get f l")
    case None
    with Cons.prems show ?thesis
      by (intro Cons.IH [of "fs_put l Dir f" l]) (auto intro: tree_put)
  next
    case (Some n)
    with Cons.prems show ?thesis by (cases n) (auto intro: Cons.IH [of f l])
  qed
qed simp

lemma tree_mkdirs_part: "tree f \<Longrightarrow> tree (mkdirs_part l k f)"
  using tree_mkdirs [OF _ _ nested_take [OF nested_ancestors]]
  by (auto simp: mkdirs_part_def split: option.split sum.split)

lemma tree_write: "fs_write l b f = Inr f' \<Longrightarrow> tree f \<Longrightarrow> tree f'"
  by (auto simp: fs_write_def split: if_splits option.splits node.splits intro!: tree_put)

lemma tree_append: "fs_append l b f = Inr f' \<Longrightarrow> tree f \<Longrightarrow> tree f'"
  by (cases "l = []") (auto simp: fs_append_def split: option.splits node.splits intro!: tree_put dest: treeD)

lemma tree_rename:
  assumes "fs_rename a b f = Inr f'" and "tree f"
  shows "tree f'"
proof -
  obtain n where n: "fs_get f a = Some n" "n \<noteq> Dir"
    using assms(1) by (auto simp: fs_rename_def split: option.splits node.splits)
  then have "a \<noteq> []" by auto
  with n assms(2) have "tree (fs_del a f)" by (intro tree_del_leaf) auto
  with n assms \<open>a \<noteq> []\<close> show ?thesis
    by (auto simp: fs_rename_def split: option.splits node.splits if_splits intro!: tree_put)
qed

lemma tree_remove_file: "fs_remove_file l f = Inr f' \<Longrightarrow> tree f \<Longrightarrow> tree f'"
  by (cases "l = []") (auto simp: fs_remove_file_def split: option.splits node.splits intro!: tree_del_leaf)

lemma tree_remove_dir: "fs_remove_dir l f = Inr f' \<Longrightarrow> tree f \<Longrightarrow> tree f'"
  by (auto simp: fs_remove_dir_def split: option.splits node.splits if_splits
    intro!: tree_del dest: no_child_get)

lemma tree_syscall:
  assumes "\<And>k. tree f \<Longrightarrow> tree (part k f)" and "\<And>a f'. run f = Inr (a, f') \<Longrightarrow> tree f \<Longrightarrow> tree f'"
    and "fs w = f" and "tree f"
  shows "tree (fs (snd (syscall part run w)))"
  using assms by (auto simp: syscall_def Let_def split: option.splits fault.splits sum.splits)

lemma tree_calls [simp]:
  "keeps tree_world (create_dir_all p)" "keeps tree_world (write_file p b)"
  "keeps tree_world (append_file p b)" "keeps tree_world (rename_file p q)"
  "keeps tree_world (remove_file p)" "keeps tree_world (remove_dir p)"
  "keeps tree_world (create_file p)"
proof -
  show "keeps tree_world (create_dir_all p)"
    using tree_mkdirs [OF _ _ nested_ancestors]
    by (auto simp: keeps_def create_dir_all_def Let_def intro!: tree_syscall tree_mkdirs_part split: sum.splits)
  show w: "keeps tree_world (write_file p b)" for b
    by (auto simp: keeps_def write_file_def Let_def write_part_def intro!: tree_syscall
      split: option.split sum.splits dest: tree_write)
  then show "keeps tree_world (create_file p)" by (simp add: create_file_def)
  show "keeps tree_world (append_file p b)"
    by (auto simp: keeps_def append_file_def Let_def append_part_def intro!: tree_syscall
      split: option.split sum.splits dest: tree_append)
  show "keeps tree_world (rename_file p q)"
    by (auto simp: keeps_def rename_file_def intro!: tree_syscall split: sum.splits dest: tree_rename)
  show "keeps tree_world (remove_file p)"
    by (auto simp: keeps_def remove_file_def intro!: tree_syscall split: sum.splits dest: tree_remove_file)
  show "keeps tree_world (remove_dir p)"
    by (auto simp: keeps_def remove_dir_def intro!: tree_syscall split: sum.splits dest: tree_remove_dir)
qed

section \<open>The registry client\<close>

lemma tree_same: "stays fs_same m \<Longrightarrow> keeps tree_world m"
  by (rule keeps_of_same)

lemma tree_stream: "keeps tree_world (stream_to L p cs h)"
  by (induction L p cs h rule: stream_to.induct) (auto intro!: keeps_bind)

lemma tree_pull_blob: "keeps tree_world (pull_blob_to L c r d p)"
  unfolding pull_blob_to_def Let_def by (auto intro!: keeps_bind tree_stream simp: tree_same)

lemma tree_pull_each: "keeps tree_world (pull_each L c r dir layers paths)"
  by (induction layers arbitrary: paths) (auto intro!: keeps_bind tree_pull_blob simp: tree_same Let_def)

lemma tree_pull: "keeps tree_world (oci_pull_layers L c seed dir)"
  unfolding oci_pull_layers_def by (auto intro!: keeps_bind tree_pull_each simp: tree_same)

interpretation files: call_invariant tree_world "oci_registry L c" for L c
  by unfold_locales (simp_all add: tree_same tree_pull oci_registry_def, simp add: fs_same_def)

section \<open>Properties\<close>


lemma quiet_tree_safe: "backends_keep tree_world quiet_backends"
  using tree_same [OF ok_spawn_world(2)]
  by (auto simp: backends_keep_def quiet_backends_def toy_backends_def rspacefs_mounter_def
    quiet_capturer_def keeps_def [of _ "rsp_mount _ _ _"] ok_spawn_world(1))


end
