(* ===== verification/Process.thy ===== *)
theory Process
  imports File_Tree
begin

text \<open>
  The whole process: \<open>main\<close> with everything below it. What is assumed of the gRPC server is its
  documented behaviour: while it serves, the world changes only by calls of the served services, by
  polls of the shutdown future it was given and by what goes on outside, and it ends normally only
  when that future has resolved.
\<close>

section \<open>Serving\<close>

inductive serving ::
  "ctx_libs \<Rightarrow> 'x router \<Rightarrow> ('x world \<Rightarrow> 'x world \<Rightarrow> bool) \<Rightarrow> 'x signal_ops \<Rightarrow> 'x world \<Rightarrow>
   shutdown \<Rightarrow> 'x world \<Rightarrow> bool"
  for J :: ctx_libs and rt :: "'x router" and env :: "'x world \<Rightarrow> 'x world \<Rightarrow> bool"
    and G :: "'x signal_ops" and w0 :: "'x world" where
  start: "serving J rt env G w0 Unpolled w0"
| call: "serving J rt env G w0 st w \<Longrightarrow> rpc_step J rt w c w' \<Longrightarrow> serving J rt env G w0 st w'"
| between: "serving J rt env G w0 st w \<Longrightarrow> env w w' \<Longrightarrow> serving J rt env G w0 st w'"
| poll: "serving J rt env G w0 st w \<Longrightarrow> shutdown_signal G st w = (Inr st', w') \<Longrightarrow>
    serving J rt env G w0 st' w'"

definition serves_until_signal ::
  "ctx_libs \<Rightarrow> ('x world \<Rightarrow> 'x world \<Rightarrow> bool) \<Rightarrow> 'x signal_ops \<Rightarrow> 'x transport \<Rightarrow> bool" where
  "serves_until_signal J env G T \<longleftrightarrow>
     (\<forall>rt w r w'. tr_serve T rt (shutdown_signal G) w = (r, w') \<longrightarrow>
        (\<exists>st. serving J rt env G w st w' \<and> (r = Inr () \<longrightarrow> (\<exists>k. st = Resolved k))) \<or>
        (\<exists>st v m. serving J rt env G w st v \<and> shutdown_signal G st v = (Inl m, w') \<and> r = Inl (Panic m)))"

lemma serves_Inr:
  assumes "serves_until_signal J env G T" and "tr_serve T rt (shutdown_signal G) w = (Inr (), w')"
  obtains k where "serving J rt env G w (Resolved k) w'"
  using assms unfolding serves_until_signal_def by (metis sum.distinct(1))

section \<open>The shutdown future\<close>

lemma select_signal_outcome:
  assumes "select_signal G w = (r, w')"
  shows "r = Inr Waiting \<or> (\<exists>k u. r = Inr (Resolved k) \<and> sg_recv G k u = (True, w'))"
  using assms by (auto simp: select_signal_def Let_def split: prod.splits bool.splits)

lemma select_signal_no_panic: "select_signal G w \<noteq> (Inl m, w')"
  using select_signal_outcome [of G w "Inl m" w'] by auto

text \<open>What a poll says about the handlers and the signals.\<close>

lemma shutdown_first_poll:
  assumes "shutdown_signal G Unpolled w = (Inr st', w')"
  obtains u u' where "sg_signal G SIGTERM w = (Inr (), u)" and "sg_signal G SIGINT u = (Inr (), u')"
    and "select_signal G u' = (Inr st', w')"
  using assms by (auto simp: io_bind_eq_Inr)

lemma shutdown_poll_resolves:
  assumes "shutdown_signal G st w = (Inr (Resolved k), w')" and "st \<noteq> Resolved k"
  shows "\<exists>u. sg_recv G k u = (True, w')"
proof (cases st)
  case Unpolled
  from assms(1) [unfolded this] show ?thesis
    by (rule shutdown_first_poll) (auto dest: select_signal_outcome)
next
  case Waiting
  with assms(1) show ?thesis by (auto dest: select_signal_outcome)
next
  case (Resolved l)
  with assms show ?thesis by simp
qed

text \<open>What the state of the future says about the past: once polled, both handlers have been installed,
  \<open>SIGTERM\<close> first; once resolved, a poll has received the signal.\<close>

lemma serving_polled:
  assumes "serving J rt env G w0 st w" and "st \<noteq> Unpolled"
  shows "\<exists>u u' u''. serving J rt env G w0 Unpolled u \<and>
    sg_signal G SIGTERM u = (Inr (), u') \<and> sg_signal G SIGINT u' = (Inr (), u'')"
  using assms
proof (induction rule: serving.induct)
  case (poll st w st' w')
  show ?case
  proof (cases "st = Unpolled")
    case True
    with poll show ?thesis by (blast elim: shutdown_first_poll)
  next
    case False
    then show ?thesis by (rule poll(3))
  qed
qed blast+

lemma serving_resolved:
  assumes "serving J rt env G w0 st w" and "st = Resolved k"
  shows "\<exists>st' u x u'. serving J rt env G w0 st' u \<and> shutdown_signal G st' u = (Inr (Resolved k), u') \<and>
    sg_recv G k x = (True, u')"
  using assms
proof (induction rule: serving.induct)
  case (poll st w st' w')
  show ?case
  proof (cases "st = Resolved k")
    case True
    then show ?thesis by (rule poll(3))
  next
    case False
    with poll(1,2,4) shutdown_poll_resolves [of G st w k w'] show ?thesis by blast
  qed
qed blast+

section \<open>Invariants of the process\<close>

text \<open>Everything outside the driver that the process talks to keeps a property: the programs it runs,
  the control socket, binding the listener, and the signal handlers.\<close>

definition outside_keeps ::
  "('x world \<Rightarrow> bool) \<Rightarrow> 'x spawner \<Rightarrow> 'x sock_ops \<Rightarrow> 'x transport \<Rightarrow> 'x signal_ops \<Rightarrow> bool" where
  "outside_keeps P spawn S T G \<longleftrightarrow>
     (\<forall>b a. keeps P (spawn b a)) \<and>
     (\<forall>p. keeps P (sk_connect S p)) \<and> (\<forall>n b. keeps P (sk_write_all S n b)) \<and>
     (\<forall>n. keeps P (sk_flush S n)) \<and> (\<forall>n. keeps P (sk_read_line S n)) \<and>
     (\<forall>p. keeps P (tr_bind T p)) \<and> (\<forall>k. keeps P (sg_signal G k)) \<and>
     (\<forall>k w. P w \<longrightarrow> P (snd (sg_recv G k w)))"

lemma keeps_run_ok: "keeps P (spawn b a) \<Longrightarrow> keeps P (run_ok spawn b a)"
  by (auto simp: keeps_def run_ok_def split: prod.split sum.split)

lemma keeps_select: "(\<And>k w. P w \<Longrightarrow> P (snd (sg_recv G k w))) \<Longrightarrow> keeps P (select_signal G)"
  unfolding keeps_def select_signal_def Let_def
  by (auto split: prod.split bool.split) (metis snd_conv)+

lemma keeps_shutdown:
  assumes "outside_keeps P spawn S T G"
  shows "keeps P (shutdown_signal G st)"
  using assms keeps_select [of P G]
  by (cases st) (auto intro!: keeps_bind simp: outside_keeps_def)

lemma keeps_socket_capture:
  assumes "outside_keeps P spawn S T G"
  shows "keeps P (cap_capture (socket_control J S) a b)"
  using assms unfolding socket_control_def socket_capture_def socket_request_def
  by (auto intro!: keeps_bind simp: outside_keeps_def)

context call_invariant
begin

lemma kept_mounter:
  assumes "outside_keeps P spawn S T G"
  shows "keeps P (mnt_mount (rspacefs_mounter spawn bin) s)"
    and "keeps P (mnt_unmount (rspacefs_mounter spawn bin) t)"
proof -
  have sp: "keeps P (spawn b a)" for b a using assms by (simp add: outside_keeps_def)
  then show "keeps P (mnt_mount (rspacefs_mounter spawn bin) s)"
    by (auto intro!: keeps_bind simp: rspacefs_mounter_def rsp_mount_def)
  have "keeps P (path_exists p)" for p by (rule of_same) simp
  then show "keeps P (mnt_unmount (rspacefs_mounter spawn bin) t)"
    by (auto intro!: keeps_bind keeps_run_ok sp simp: rspacefs_mounter_def rsp_unmount_def io_or_def)
qed

lemma kept_backends:
  assumes "outside_keeps P spawn S T G"
  shows "backends_keep P \<lparr>be_mounter = rspacefs_mounter spawn bin, be_registry = R', be_capturer = socket_control J S\<rparr>"
  using kept_mounter [OF assms] keeps_socket_capture [OF assms] by (simp add: backends_keep_def)

lemma kept_serving:
  assumes "serving J (make_router r cfg be) env G w0 st w" and "P w0"
    and "be_registry be = R" and "backends_keep P be" and "outside_keeps P spawn S T G"
    and "\<And>v v'. env v v' \<Longrightarrow> P v \<Longrightarrow> P v'"
  shows "P w"
  using assms(1,2)
proof (induction rule: serving.induct)
  case (call st w c w')
  then show ?case using kept_step [OF _ _ assms(3,4)] by blast
next
  case (poll st w st' w')
  then show ?case using keepsD' [OF keeps_shutdown [OF assms(5)]] by blast
qed (use assms(6) in blast)+

lemma kept_serve:
  assumes "serves_until_signal J env G T" and "outside_keeps P spawn S T G" and "backends_keep P be"
    and "be_registry be = R" and "\<And>v v'. env v v' \<Longrightarrow> P v \<Longrightarrow> P v'"
  shows "keeps P (serve T G endpoint r cfg be)"
proof -
  have "keeps P (tr_serve T (make_router r cfg be) (shutdown_signal G))"
  proof (rule keepsI)
    fix w assume "P w"
    let ?run = "tr_serve T (make_router r cfg be) (shutdown_signal G) w"
    have sv: "P v" if "serving J (make_router r cfg be) env G w st v" for st v
      using kept_serving [OF that \<open>P w\<close> assms(4,3,2)] assms(5) by blast
    have "?run = (fst ?run, snd ?run)" by simp
    with assms(1) consider st where "serving J (make_router r cfg be) env G w st (snd ?run)"
      | st v m where "serving J (make_router r cfg be) env G w st v" "shutdown_signal G st v = (Inl m, snd ?run)"
      unfolding serves_until_signal_def by blast
    then show "P (snd ?run)"
    proof cases
      case 2
      then show ?thesis using keepsD' [OF keeps_shutdown [OF assms(2)] 2(2) sv] by blast
    qed (rule sv)
  qed
  moreover have "keeps P (remove_if_socket p)" for p
    using keepsD [OF remove_file] of_same [of "metadata p"]
    by (auto simp: remove_if_socket_def keeps_def split: prod.split sum.split)
  moreover have "keeps P (tr_bind T p)" for p using assms(2) by (simp add: outside_keeps_def)
  ultimately show ?thesis unfolding serve_def Let_def
    by (auto intro!: keeps_bind remove_file create_dir_all split: option.split)
qed

end

lemma main_keeps:
  assumes "\<And>client. call_invariant P (oci_registry L client)" and "serves_until_signal JC env G T"
    and "outside_keeps P spawn S T G" and "\<And>v v'. env v v' \<Longrightarrow> P v \<Longrightarrow> P v'"
  shows "keeps P (main L J build spawn S T G c)"
proof -
  have "keeps P (serve T G endpoint r cfg
      \<lparr>be_mounter = rspacefs_mounter spawn bin, be_registry = oci_registry L client,
       be_capturer = socket_control J S\<rparr>)" for endpoint r cfg bin client
    by (rule call_invariant.kept_serve [OF assms(1,2,3) call_invariant.kept_backends [OF assms(1,3)]])
      (simp_all add: assms(4))
  then show ?thesis unfolding main_def Let_def by (auto intro!: keeps_bind)
qed

section \<open>Properties\<close>

text \<open>
  C17. Whatever the process goes through, from its start to its end, by a signal, an error or a panic,
  and whatever calls it serves, it leaves every \<open>NAME.blob\<close> with bytes of digest \<open>NAME\<close> and the file
  system a tree, if it found them so: given that hashing and encoding are as documented, that the gRPC
  server serves as documented and that nothing outside the driver breaks them.
\<close>

lemma poll_once_serves: "serves_until_signal J env G \<lparr>tr_bind = B, tr_serve = poll_once\<rparr>"
  unfolding serves_until_signal_def
proof (intro allI impI)
  fix rt :: "'a router" and w r w'
  assume "tr_serve \<lparr>tr_bind = B, tr_serve = poll_once\<rparr> rt (shutdown_signal G) w = (r, w')"
  then have run: "poll_once rt (shutdown_signal G) w = (r, w')" by simp
  obtain x w1 where x: "shutdown_signal G Unpolled w = (x, w1)" by fastforce
  show "(\<exists>st. serving J rt env G w st w' \<and> (r = Inr () \<longrightarrow> (\<exists>k. st = Resolved k))) \<or>
    (\<exists>st v m. serving J rt env G w st v \<and> shutdown_signal G st v = (Inl m, w') \<and> r = Inl (Panic m))"
  proof (cases x)
    case (Inl m)
    with run x have "r = Inl (Panic m)" "w' = w1" by (auto simp: poll_once_def io_bind_def io_map_err_def)
    with Inl x show ?thesis using serving.start [of J rt env G w] by blast
  next
    case (Inr st)
    from serving.poll [OF serving.start x [unfolded Inr]] run x Inr show ?thesis
      by (cases st) (auto simp: poll_once_def io_bind_def io_map_err_def)
  qed
qed


lemma toy_outside: "outside_keeps P ok_spawn toy_sock toy_transport toy_signals"
  by (simp add: outside_keeps_def toy_sock_def toy_transport_def toy_signals_def ok_spawn_def keeps_def)

lemma toy_main_ends: obtains w' where "toy_main toy_cli (toy_world []) = (Inr (), w')"
proof -
  have "fst (toy_main toy_cli (toy_world [])) = Inr ()" by code_simp
  then show ?thesis by (rule fst_eqE) (rule that)
qed


text \<open>
  C18. The process ends normally only because it was told to: both signal handlers had been installed,
  \<open>SIGTERM\<close> first, and one of the two signals was received while the services of the role were being
  served; the listener had been bound to a path that was free (faults that pretend a file is missing
  apart), and the last thing done is the removal of the endpoint.
\<close>

theorem process_stops_on_signal:
  assumes "main L J build spawn S T G c w = (Inr (), w')" and "serves_until_signal JC env G T"
  shows "\<exists>cfg be rt vb v0 u u' u'' st x y y' k v.
    tr_bind T (endpoint_path (ar_endpoint (args_parse c))) vb = (Inr (), v0) \<and>
    (honest w \<longrightarrow> fs_get (fs vb) (loc_of (cwd w) (endpoint_path (ar_endpoint (args_parse c)))) = None) \<and>
    rt = make_router (ar_role (args_parse c)) cfg be \<and>
    serving JC rt env G v0 Unpolled u \<and>
    sg_signal G SIGTERM u = (Inr (), u') \<and> sg_signal G SIGINT u' = (Inr (), u'') \<and>
    serving JC rt env G v0 st x \<and> shutdown_signal G st x = (Inr (Resolved k), y') \<and>
    sg_recv G k y = (True, y') \<and>
    serving JC rt env G v0 (Resolved k) v \<and>
    w' = snd (remove_file (endpoint_path (ar_endpoint (args_parse c))) v)"
proof -
  let ?ep = "endpoint_path (ar_endpoint (args_parse c))"
  obtain cfg be where "serve T G (ar_endpoint (args_parse c)) (ar_role (args_parse c)) cfg be w = (Inr (), w')"
    using assms(1) by (auto simp: main_def Let_def io_bind_eq_Inr split: if_splits)
  then obtain vb v0 v where bd: "tr_bind T ?ep vb = (Inr (), v0)"
      "honest w \<longrightarrow> fs_get (fs vb) (loc_of (cwd w) ?ep) = None"
    and sv: "tr_serve T (make_router (ar_role (args_parse c)) cfg be) (shutdown_signal G) v0 = (Inr (), v)"
    and w': "w' = snd (remove_file ?ep v)"
    by (rule serve_binds_free_path)
  let ?rt = "make_router (ar_role (args_parse c)) cfg be"
  obtain k where k: "serving JC ?rt env G v0 (Resolved k) v"
    using serves_Inr [OF assms(2) sv] by blast
  obtain u u' u'' where a: "serving JC ?rt env G v0 Unpolled u" "sg_signal G SIGTERM u = (Inr (), u')"
    "sg_signal G SIGINT u' = (Inr (), u'')"
    using serving_polled [OF k] by blast
  obtain st x y y' where b: "serving JC ?rt env G v0 st x" "shutdown_signal G st x = (Inr (Resolved k), y')"
    "sg_recv G k y = (True, y')"
    using serving_resolved [OF k refl] by blast
  show ?thesis by (intro exI conjI) (rule refl bd a b k w')+
qed

theorem process_stops_on_signal_witness:
  "\<exists>w' v vb v0. toy_main toy_cli (toy_world [([str ''s''], Sock)]) = (Inr (), w') \<and>
     tr_bind toy_transport (endpoint_path (str ''/s'')) vb = (Inr (), v0) \<and>
     fs_get (fs vb) (loc_of [] (endpoint_path (str ''/s''))) = None \<and>
     w' = snd (remove_file (endpoint_path (str ''/s'')) v)"
proof -
  let ?w = "toy_world [([str ''s''], Sock)]"
  have "fst (toy_main toy_cli ?w) = Inr ()" by code_simp
  then obtain w' where run: "toy_main toy_cli ?w = (Inr (), w')" by (rule fst_eqE)
  have "serves_until_signal toy_J (\<lambda>_ _. False) toy_signals toy_transport"
    unfolding toy_transport_def by (rule poll_once_serves)
  moreover have "honest ?w" "cwd ?w = []" by (simp_all add: honest_def toy_world_def)
  moreover have "ar_endpoint (args_parse toy_cli) = str ''/s''"
    by (simp add: args_parse_def toy_cli_def or_default_def)
  ultimately show ?thesis using process_stops_on_signal [OF run, of toy_J "\<lambda>_ _. False"] run by auto
qed

end
