(* ===== verification/Delivery.thy ===== *)
theory Delivery
  imports Node
begin

text \<open>
  Progress: what the driver completes when nothing outside it fails. The local file system is
  \<open>healthy\<close> (no call fails on its own), the registry server keeps the OCI distribution protocol
  (stated over abstract stores of blobs and manifests, which the server's state has),
  and the crates behave as documented. Then pulling completes, publishing completes, and a revision
  that is pushed can be pulled back byte for byte, on any node, as long as the server keeps it.
\<close>

section \<open>Calls on a healthy file system\<close>

definition healthy :: "'x world \<Rightarrow> bool" where
  "healthy w \<longleftrightarrow> faults w = (\<lambda>_. None)"

text \<open>The world after a call that put one node, and nothing else.\<close>

definition puts :: "loc \<Rightarrow> node \<Rightarrow> 'x world \<Rightarrow> 'x world \<Rightarrow> bool" where
  "puts l n w w' \<longleftrightarrow>
     fs_get (fs w') = (fs_get (fs w))(l \<mapsto> n) \<and> cwd w' = cwd w \<and> faults w' = faults w \<and> ext w' = ext w"

lemma puts_trans: "puts l m u v \<Longrightarrow> puts l n v w \<Longrightarrow> puts l n u w"
  by (auto simp: puts_def)

lemma putsI:
  assumes "l \<noteq> []"
  shows "puts l n w (w\<lparr>tick := t, fs := fs_put l n (fs w)\<rparr>)"
  using assms by (auto simp: puts_def)

lemma syscall_healthy:
  "healthy w \<Longrightarrow> syscall part run w =
     (case run (fs w) of
        Inl e \<Rightarrow> (Inl e, w\<lparr>tick := Suc (tick w)\<rparr>)
      | Inr (a, f) \<Rightarrow> (Inr a, w\<lparr>tick := Suc (tick w), fs := f\<rparr>))"
  by (simp add: syscall_def healthy_def Let_def split: sum.split)

lemma write_healthy:
  assumes "healthy w" and "l = loc_of (cwd w) p" and "l \<noteq> []"
    and "fs_get (fs w) (butlast l) = Some Dir" and "fs_get (fs w) l \<notin> {Some Dir, Some Sock}"
  obtains w' where "write_file p b w = (Inr (), w')" and "puts l (File b) w w'"
proof -
  have "fs_write l b (fs w) = Inr (fs_put l (File b) (fs w))"
    using assms(3-5) by (simp add: fs_write_def split: option.split node.split)
  then have "write_file p b w = (Inr (), w\<lparr>tick := Suc (tick w), fs := fs_put l (File b) (fs w)\<rparr>)"
    by (simp add: write_file_def syscall_healthy [OF assms(1)] assms(2) [symmetric])
  then show thesis using putsI [OF assms(3)] by (rule that)
qed

lemma append_healthy:
  assumes "healthy w" and "l = loc_of (cwd w) p" and "l \<noteq> []" and "fs_get (fs w) l = Some (File a)"
  obtains w' where "append_file p b w = (Inr (), w')" and "puts l (File (a @ b)) w w'"
proof -
  have "append_file p b w = (Inr (), w\<lparr>tick := Suc (tick w), fs := fs_put l (File (a @ b)) (fs w)\<rparr>)"
    using assms(4) by (simp add: append_file_def fs_append_def syscall_healthy [OF assms(1)] assms(2) [symmetric])
  then show thesis using putsI [OF assms(3)] by (rule that)
qed

lemma flush_healthy: "healthy w \<Longrightarrow> flush_file p w = (Inr (), w\<lparr>tick := Suc (tick w)\<rparr>)"
  by (simp add: flush_file_def syscall_healthy)

lemma path_exists_healthy:
  assumes "healthy w"
  shows "path_exists p w = (Inr (fs_get (fs w) (loc_of (cwd w) p) \<noteq> None), w\<lparr>tick := Suc (tick w)\<rparr>)"
  by (simp add: path_exists_def metadata_def syscall_healthy [OF assms] split: option.split)

lemma rename_healthy:
  assumes "healthy w" and "k = loc_of (cwd w) p" and "l = loc_of (cwd w) q" and "k \<noteq> []" and "l \<noteq> []"
    and "k \<noteq> l" and "fs_get (fs w) k = Some (File b)" and "fs_get (fs w) l \<noteq> Some Dir"
    and "fs_get (fs w) (butlast l) = Some Dir"
  obtains w' where "rename_file p q w = (Inr (), w')"
    and "fs_get (fs w') = (fs_get (fs w))(k := None, l \<mapsto> File b)"
    and "cwd w' = cwd w" and "faults w' = faults w" and "ext w' = ext w"
proof -
  have "fs_rename k l (fs w) = Inr (fs_put l (File b) (fs_del k (fs w)))"
    using assms(4-9) by (simp add: fs_rename_def)
  then have "rename_file p q w =
    (Inr (), w\<lparr>tick := Suc (tick w), fs := fs_put l (File b) (fs_del k (fs w))\<rparr>)"
    by (simp add: rename_file_def syscall_healthy [OF assms(1)] assms(2,3) [symmetric])
  then show thesis using assms(4-6)
    by (intro that [of "w\<lparr>tick := Suc (tick w), fs := fs_put l (File b) (fs_del k (fs w))\<rparr>"])
      (auto simp: fun_eq_iff)
qed

text \<open>A directory can be made where no file is in the way.\<close>

definition dir_free :: "fsys \<Rightarrow> loc \<Rightarrow> bool" where
  "dir_free f l \<longleftrightarrow> (\<forall>k \<in> set (ancestors l). fs_get f k = None \<or> fs_get f k = Some Dir)"

lemma mkdirs_free:
  assumes "\<forall>k \<in> set ls. fs_get f k = None \<or> fs_get f k = Some Dir"
  shows "\<exists>f'. mkdirs ls f = Inr f'"
  using assms
proof (induction ls arbitrary: f)
  case (Cons l ls)
  show ?case
  proof (cases "fs_get f l")
    case None
    then have "l \<noteq> []" by auto
    with None Cons.prems have "\<forall>k \<in> set ls. fs_get (fs_put l Dir f) k = None \<or> fs_get (fs_put l Dir f) k = Some Dir"
      by simp
    from Cons.IH [OF this] None show ?thesis by simp
  next
    case (Some n)
    with Cons.prems Cons.IH show ?thesis by auto
  qed
qed simp

lemma create_dir_all_healthy:
  assumes "healthy w" and "p \<noteq> []" and "dir_free (fs w) (loc_of (cwd w) p)"
  obtains w' where "create_dir_all p w = (Inr (), w')" and "fs_get (fs w') (loc_of (cwd w) p) = Some Dir"
    and "\<And>l. fs_get (fs w') l = fs_get (fs w) l \<or> fs_get (fs w) l = None \<and> fs_get (fs w') l = Some Dir"
    and "cwd w' = cwd w" and "faults w' = faults w" and "ext w' = ext w"
proof -
  from mkdirs_free assms(3) obtain f' where f': "mkdirs (ancestors (loc_of (cwd w) p)) (fs w) = Inr f'"
    unfolding dir_free_def by blast
  then have run: "create_dir_all p w = (Inr (), w\<lparr>tick := Suc (tick w), fs := f'\<rparr>)"
    using assms(2) by (simp add: create_dir_all_def Let_def syscall_healthy [OF assms(1)])
  have "fs_get f' l = fs_get (fs w) l \<or> fs_get (fs w) l = None \<and> fs_get f' l = Some Dir" for l
    using mkdirs_get [OF f'] mkdirs_Dir [OF f'] by metis
  with run create_dir_all_Inr [OF run assms(2)] show thesis
    by (intro that [of "w\<lparr>tick := Suc (tick w), fs := f'\<rparr>"]) auto
qed

section \<open>The registry server\<close>

text \<open>
  What the OCI distribution specification promises of a reachable server, for a server whose state
  \<open>x\<close> holds the blobs \<open>B x\<close> and the manifests \<open>M x\<close>, each by registry, repository and digest (or, for
  a manifest, tag). A \<open>GET\<close> returns what is stored, in any division into chunks; a \<open>HEAD\<close> tells whether
  a blob is there; an upload session accepts one blob under its digest; a manifest whose blobs are
  there is accepted under a tag and stored under the tag and under its
  digest, which the server may also report.
\<close>

type_synonym 'x store = "'x \<Rightarrow> rstr \<Rightarrow> rstr \<Rightarrow> rstr \<Rightarrow> bytes option"

definition serves :: "'x oci_client \<Rightarrow> http_req \<Rightarrow> 'x \<Rightarrow> bytes \<Rightarrow> bool" where
  "serves c q x b \<longleftrightarrow>
     (\<exists>resp bs. http c q x = (Inr resp, x) \<and> is_success (hr_status resp) \<and>
        hr_chunks resp = map Inr bs \<and> concat bs = b)"

definition blob_get :: "'x oci_client \<Rightarrow> oci_reference \<Rightarrow> rstr \<Rightarrow> http_req" where
  "blob_get c r d = \<lparr>hq_method = GET, hq_url = blob_url c r d, hq_headers = [], hq_body = []\<rparr>"

definition manifest_get :: "'x oci_client \<Rightarrow> oci_reference \<Rightarrow> http_req" where
  "manifest_get c r =
     \<lparr>hq_method = GET, hq_url = manifest_url c r, hq_headers = [(str ''accept'', MANIFEST_ACCEPT)], hq_body = []\<rparr>"

definition server_reads :: "'h oci_libs \<Rightarrow> 'x oci_client \<Rightarrow> 'x store \<Rightarrow> 'x store \<Rightarrow> bool" where
  "server_reads L c B M \<longleftrightarrow>
     (\<forall>x r d b. B x (registry r) (repository r) d = Some b \<and> d = sha_name L (sha_digest L b) \<longrightarrow>
        serves c (blob_get c r d) x b) \<and>
     (\<forall>x r b. M x (registry r) (repository r) (reference r) = Some b \<longrightarrow> serves c (manifest_get c r) x b)"

section \<open>Pulling completes\<close>

lemma stream_healthy:
  assumes "healthy w" and "l = loc_of (cwd w) out" and "l \<noteq> []" and "fs_get (fs w) l = Some (File a)"
  shows "\<exists>w'. stream_to L out (map Inr bs) h w = (Inr (foldl (sha_update L) h bs), w') \<and>
    puts l (File (a @ concat bs)) w w'"
  using assms
proof (induction bs arbitrary: a h w)
  case Nil
  then show ?case by (auto simp: puts_def)
next
  case (Cons b bs)
  from append_healthy [OF Cons.prems] obtain w1 where app: "append_file out b w = (Inr (), w1)"
    and p1: "puts l (File (a @ b)) w w1" by blast
  from p1 Cons.prems have "healthy w1" "l = loc_of (cwd w1) out" "fs_get (fs w1) l = Some (File (a @ b))"
    by (simp_all add: puts_def healthy_def)
  from Cons.IH [OF this(1,2) Cons.prems(3) this(3), of "sha_update L h b"] obtain w2 where
    "stream_to L out (map Inr bs) (sha_update L h b) w1 = (Inr (foldl (sha_update L) (sha_update L h b) bs), w2)"
    "puts l (File ((a @ b) @ concat bs)) w1 w2" by blast
  with app puts_trans [OF p1] show ?case by auto
qed

lemma pull_blob_healthy:
  assumes "healthy w" and "l = loc_of (cwd w) out" and "l \<noteq> []"
    and "fs_get (fs w) (butlast l) = Some Dir" and "fs_get (fs w) l \<notin> {Some Dir, Some Sock}"
    and "serves c (blob_get c r d) (ext w) b" and "d = sha_name L (sha_digest L b)" and "sha_incremental L"
  shows "\<exists>w'. pull_blob_to L c r d out w = (Inr (), w') \<and> puts l (File b) w w'"
proof -
  from assms(6) obtain resp bs where send: "http_send (http c) (blob_get c r d) w = (Inr resp, w)"
    and ok: "is_success (hr_status resp)" and bs: "hr_chunks resp = map Inr bs" "concat bs = b"
    by (auto simp: serves_def http_send_def)
  from write_healthy [OF assms(1-5), of "[]"] obtain w1 where cr: "create_file out w = (Inr (), w1)"
    and p1: "puts l (File []) w w1" by (auto simp: create_file_def)
  from p1 assms(1,2) have "healthy w1" "l = loc_of (cwd w1) out" "fs_get (fs w1) l = Some (File [])"
    by (simp_all add: puts_def healthy_def)
  from stream_healthy [OF this(1,2) assms(3) this(3), of L bs "sha_new L"] bs(2) obtain w2 where
    st: "stream_to L out (map Inr bs) (sha_new L) w1 = (Inr (foldl (sha_update L) (sha_new L) bs), w2)"
    and p2: "puts l (File b) w1 w2" by auto
  let ?w3 = "w2\<lparr>tick := Suc (tick w2)\<rparr>"
  have p3: "puts l (File b) w ?w3" using puts_trans [OF p1 p2] by (simp add: puts_def)
  have "healthy w2" using p1 p2 assms(1) by (simp add: puts_def healthy_def)
  then have fl: "flush_file out w2 = (Inr (), ?w3)" by (rule flush_healthy)
  have "sha_name L (sha_finalize L (foldl (sha_update L) (sha_new L) bs)) = d"
    using assms(7,8) bs(2) by (simp add: sha_incremental_def)
  then have "pull_blob_to L c r d out w = (Inr (), ?w3)"
    using send ok cr st fl bs(1)
    by (simp add: pull_blob_to_def Let_def blob_get_def eq_ignore_ascii_case_def)
  with p3 show ?thesis by blast
qed

text \<open>The name a layer has while it is pulled, for a layer named by a digest.\<close>

lemma path_join_split:
  assumes "plain_name n" and "plain_name m"
  obtains pre where "path_join dir n = pre @ n" and "path_join dir m = pre @ m"
    and "pre = [] \<or> last pre = c_slash"
proof (cases "dir = [] \<or> last dir = c_slash")
  case True
  with assms show thesis by (intro that [of dir]) (simp_all add: path_join_def)
next
  case False
  with assms show thesis by (intro that [of "dir @ [c_slash]"]) (simp_all add: path_join_def)
qed

lemma with_extension_partial:
  assumes "c_slash \<notin> set n" and "n \<noteq> []" and pre: "pre = [] \<or> last pre = c_slash"
  shows "with_extension (pre @ n @ str ''.blob'') (str ''blob.partial'') = pre @ n @ str ''.blob.partial''"
proof -
  let ?p = "pre @ n @ str ''.blob''"
  have st: "strip_trail (rev ?p) = rev ?p" by (simp add: lit_simps strip_trail.simps)
  have "takeWhile (\<lambda>c. c \<noteq> c_slash) (rev pre) = []" "dropWhile (\<lambda>c. c \<noteq> c_slash) (rev pre) = rev pre"
    using pre by (cases pre rule: rev_cases; simp)+
  with assms(1) have nm: "rev (takeWhile (\<lambda>c. c \<noteq> c_slash) (rev ?p)) = n @ str ''.blob''"
    and dr: "rev (dropWhile (\<lambda>c. c \<noteq> c_slash) (rev ?p)) = pre"
    by (simp_all add: lit_simps takeWhile_append dropWhile_append)
  have "rfind c_dot (n @ c_dot # str ''blob'') = Some (byte_len n)" by (simp add: lit_simps)
  moreover have "slice_to (byte_len n) (n @ c_dot # str ''blob'') = Some n" by (rule slice_to_app)
  moreover have "str ''.blob'' = c_dot # str ''blob''" by (simp add: lit_simps)
  ultimately have "file_stem_of (n @ str ''.blob'') = n"
    using assms(2) by (simp add: file_stem_of_def split: list.split)
  moreover have "str ''.blob.partial'' = c_dot # str ''blob.partial''" by (simp add: lit_simps)
  moreover have "n @ str ''.blob'' \<noteq> [c_dot]" "n @ str ''.blob'' \<noteq> [c_dot, c_dot]" "n @ str ''.blob'' \<noteq> []"
    by (simp_all add: lit_simps append_eq_Cons_conv)
  ultimately show ?thesis unfolding with_extension_def Let_def st nm dr by simp
qed

lemma loc_partial_plain:
  assumes "c_slash \<notin> set d" and "d \<noteq> []"
  shows "loc_of c (partial_path dir d) =
    loc_of c dir @ [replace_char c_colon c_dash d @ str ''.blob.partial'']"
proof -
  let ?n = "replace_char c_colon c_dash d"
  have n: "c_slash \<notin> set ?n" "?n \<noteq> []" using assms by (auto simp: replace_char_def)
  have pl: "plain_name (?n @ str ''.blob'')" "plain_name (?n @ str ''.blob.partial'')"
    using n(1) by (auto intro!: plain_name_suffix simp: lit_simps)
  obtain pre where pre: "path_join dir (?n @ str ''.blob'') = pre @ ?n @ str ''.blob''"
    "path_join dir (?n @ str ''.blob.partial'') = pre @ ?n @ str ''.blob.partial''"
    "pre = [] \<or> last pre = c_slash"
    using path_join_split [OF pl, of dir] by blast
  have "partial_path dir d = path_join dir (?n @ str ''.blob.partial'')"
    unfolding partial_path_def blob_path_def pre(1,2) by (rule with_extension_partial [OF n pre(3)])
  then show ?thesis using pl(2) by simp
qed

text \<open>A cache directory holds files only; pulling adds to it and changes nothing else.\<close>

definition cache_dir :: "fsys \<Rightarrow> loc \<Rightarrow> bool" where
  "cache_dir f l \<longleftrightarrow> fs_get f l = Some Dir \<and> (\<forall>n. fs_get f (l @ [n]) \<notin> {Some Dir, Some Sock})"

definition cached_into :: "loc \<Rightarrow> 'x world \<Rightarrow> 'x world \<Rightarrow> bool" where
  "cached_into l w w' \<longleftrightarrow>
     faults w' = faults w \<and> cwd w' = cwd w \<and> ext w' = ext w \<and>
     (cache_dir (fs w) l \<longrightarrow> cache_dir (fs w') l) \<and>
     (\<forall>n. fs_get (fs w) (l @ [n @ str ''.blob'']) \<noteq> None \<longrightarrow>
        fs_get (fs w') (l @ [n @ str ''.blob'']) = fs_get (fs w) (l @ [n @ str ''.blob''])) \<and>
     (\<forall>k. (\<forall>n. k \<noteq> l @ [n]) \<longrightarrow> fs_get (fs w') k = fs_get (fs w) k)"

interpretation finto: frame_rel "cached_into l" for l
proof unfold_locales
  fix u v w :: "'a world"
  show "cached_into l w w" by (simp add: cached_into_def)
  assume "cached_into l u v" and "cached_into l v w"
  then show "cached_into l u w" unfolding cached_into_def by metis
qed

lemma tick_into: "cached_into l w (w\<lparr>tick := t\<rparr>)"
  by (simp add: cached_into_def)

text \<open>A layer the server can deliver.\<close>

definition deliverable :: "'h oci_libs \<Rightarrow> 'x store \<Rightarrow> 'x \<Rightarrow> oci_reference \<Rightarrow> rstr \<Rightarrow> bool" where
  "deliverable L B x r d \<longleftrightarrow>
     (\<exists>b. B x (registry r) (repository r) d = Some b \<and> d = sha_name L (sha_digest L b))"

lemma sha_name_plain:
  assumes "hex_digits L"
  shows "c_slash \<notin> set (sha_name L h)" and "sha_name L h \<noteq> []"
  using verified_no_slash [of "sha_name L h" L h] assms
  by (simp_all add: eq_ignore_ascii_case_def sha_name_def lit_simps)

lemma blob_partial_names: "a @ str ''.blob.partial'' \<noteq> b @ str ''.blob''"
proof
  assume "a @ str ''.blob.partial'' = b @ str ''.blob''"
  then have "last (a @ str ''.blob.partial'') = last (b @ str ''.blob'')" by simp
  then show False by (simp add: lit_simps)
qed

lemma pull_layer_healthy:
  assumes "healthy w" and "cache_dir (fs w) (loc_of (cwd w) dir)"
    and "serves c (blob_get c r d) (ext w) b" and d: "d = sha_name L (sha_digest L b)"
    and "sha_incremental L" and hex: "hex_digits L"
    and new: "fs_get (fs w) (loc_of (cwd w) (blob_path dir d)) = None"
  shows "\<exists>w1 w2. pull_blob_to L c r d (partial_path dir d) w = (Inr (), w1) \<and>
    rename_file (partial_path dir d) (blob_path dir d) w1 = (Inr (), w2) \<and>
    cached_into (loc_of (cwd w) dir) w w2 \<and>
    fs_get (fs w2) (loc_of (cwd w) (blob_path dir d)) = Some (File b) \<and>
    (\<forall>n. n \<noteq> replace_char c_colon c_dash d \<longrightarrow>
       fs_get (fs w2) (loc_of (cwd w) dir @ [n @ str ''.blob'']) =
       fs_get (fs w) (loc_of (cwd w) dir @ [n @ str ''.blob'']))"
proof -
  let ?l = "loc_of (cwd w) dir" and ?n = "replace_char c_colon c_dash d"
  have no: "c_slash \<notin> set d" "d \<noteq> []" unfolding d by (rule sha_name_plain [OF hex])+
  have k: "loc_of (cwd w) (partial_path dir d) = ?l @ [?n @ str ''.blob.partial'']"
    by (rule loc_partial_plain [OF no])
  have o: "loc_of (cwd w) (blob_path dir d) = ?l @ [?n @ str ''.blob'']"
    by (rule loc_blob_plain [OF no(1)])
  from assms(2) have dir: "fs_get (fs w) ?l = Some Dir"
    and files: "fs_get (fs w) (?l @ [n]) \<notin> {Some Dir, Some Sock}" for n
    by (simp_all add: cache_dir_def)
  from pull_blob_healthy [OF assms(1) k [symmetric] _ _ _ assms(3) d assms(5)] dir files obtain w1 where
    pull: "pull_blob_to L c r d (partial_path dir d) w = (Inr (), w1)"
    and p1: "puts (?l @ [?n @ str ''.blob.partial'']) (File b) w w1" by (auto simp del: insert_iff)
  have w1: "healthy w1" "cwd w1 = cwd w" "fs_get (fs w1) ?l = Some Dir"
    "fs_get (fs w1) (?l @ [?n @ str ''.blob.partial'']) = Some (File b)"
    "fs_get (fs w1) (?l @ [?n @ str ''.blob'']) \<noteq> Some Dir"
    using p1 assms(1) dir files blob_partial_names [of ?n ?n]
    by (auto simp: puts_def healthy_def)
  obtain w2 where ren: "rename_file (partial_path dir d) (blob_path dir d) w1 = (Inr (), w2)"
    and g2: "fs_get (fs w2) = (fs_get (fs w1))(?l @ [?n @ str ''.blob.partial''] := None,
      ?l @ [?n @ str ''.blob''] \<mapsto> File b)"
    and fr: "cwd w2 = cwd w1" "faults w2 = faults w1" "ext w2 = ext w1"
    by (rule rename_healthy [OF w1(1), of "?l @ [?n @ str ''.blob.partial'']" "partial_path dir d"
      "?l @ [?n @ str ''.blob'']" "blob_path dir d" b])
      (use w1 k o blob_partial_names [of ?n ?n] in auto)
  have get: "fs_get (fs w2) = (fs_get (fs w))(?l @ [?n @ str ''.blob.partial''] := None, ?l @ [?n @ str ''.blob''] \<mapsto> File b)"
    using p1 g2 by (simp add: puts_def)
  then have others: "\<forall>n. n \<noteq> ?n \<longrightarrow> fs_get (fs w2) (?l @ [n @ str ''.blob'']) = fs_get (fs w) (?l @ [n @ str ''.blob''])"
    using blob_partial_names by (auto simp: blob_partial_names [symmetric])
  have "cache_dir (fs w2) ?l" using get dir files by (simp add: cache_dir_def)
  moreover have "\<forall>k. (\<forall>n. k \<noteq> ?l @ [n]) \<longrightarrow> fs_get (fs w2) k = fs_get (fs w) k" by (simp add: get)
  ultimately have "cached_into ?l w w2"
    using p1 fr new others unfolding cached_into_def o puts_def by metis
  moreover have "fs_get (fs w2) (loc_of (cwd w) (blob_path dir d)) = Some (File b)" by (simp add: g2 o)
  ultimately show ?thesis using pull ren others by blast
qed

text \<open>Two digests have two names in the cache.\<close>

lemma blob_name_inj:
  assumes "hex_digits L"
    and "replace_char c_colon c_dash (sha_name L h) = replace_char c_colon c_dash (sha_name L g)"
  shows "sha_name L h = sha_name L g"
proof -
  have hex: "replace_char c_colon c_dash (hex_encode L k) = hex_encode L k" for k
    unfolding replace_char_def using assms(1) by (intro map_idI) (force simp: hex_digits_def)
  have "replace_char c_colon c_dash (sha_name L k) = str ''sha256-'' @ hex_encode L k" for k
    using hex [of k] by (simp add: sha_name_def replace_char_def lit_simps)
  with assms(2) show ?thesis by (simp add: sha_name_def)
qed

text \<open>The file of a layer has the bytes the server holds for it.\<close>

definition holds :: "'x store \<Rightarrow> 'x \<Rightarrow> oci_reference \<Rightarrow> rstr \<Rightarrow> node option \<Rightarrow> bool" where
  "holds B x r d e \<longleftrightarrow> (\<exists>b. B x (registry r) (repository r) d = Some b \<and> e = Some (File b))"

lemma deliverable_loc:
  assumes "deliverable L B x r d" and "hex_digits L"
  shows "loc_of c (blob_path dir d) = loc_of c dir @ [replace_char c_colon c_dash d @ str ''.blob'']"
  using assms sha_name_plain(1) [OF assms(2)] by (intro loc_blob_plain) (auto simp: deliverable_def)

text \<open>One round of the loop: the layer is reused or pulled, and no other layer is disturbed.\<close>

lemma pull_head_completes:
  assumes "server_reads L c B M" and "sha_incremental L" and "hex_digits L"
    and "healthy w" and "cache_dir (fs w) (loc_of (cwd w) dir)"
    and "\<forall>y \<in> set (x # layers). deliverable L B (ext w) r (lr_digest y)"
  obtains v where "cached_into (loc_of (cwd w) dir) w v"
    and "pull_each L c r dir (x # layers) paths w =
      pull_each L c r dir layers (paths @ [blob_path dir (lr_digest x)]) v"
    and "\<And>y. y \<in> set (x # layers) \<Longrightarrow>
      fs_get (fs w) (loc_of (cwd w) (blob_path dir (lr_digest y))) = None \<Longrightarrow>
      y \<noteq> x \<and> fs_get (fs v) (loc_of (cwd w) (blob_path dir (lr_digest y))) = None \<or>
      holds B (ext w) r (lr_digest y) (fs_get (fs v) (loc_of (cwd w) (blob_path dir (lr_digest y))))"
proof (cases "fs_get (fs w) (loc_of (cwd w) (blob_path dir (lr_digest x))) = None")
  case False
  let ?d = "lr_digest x" and ?l = "loc_of (cwd w) dir" and ?u = "w\<lparr>tick := Suc (tick w)\<rparr>"
  show thesis
    by (rule that [of ?u])
      (use False in \<open>auto simp: path_exists_healthy [OF assms(4)] tick_into Let_def\<close>)
next
  case True
  let ?d = "lr_digest x" and ?l = "loc_of (cwd w) dir" and ?u = "w\<lparr>tick := Suc (tick w)\<rparr>"
  from True have ex: "path_exists (blob_path dir ?d) w = (Inr False :: registry_error + bool, ?u)"
    by (simp add: path_exists_healthy [OF assms(4)])
  from assms(6) obtain b where b: "B (ext w) (registry r) (repository r) ?d = Some b"
    and d: "?d = sha_name L (sha_digest L b)" by (auto simp: deliverable_def)
  with assms(1) have sv: "serves c (blob_get c r ?d) (ext ?u) b" by (auto simp: server_reads_def)
  have "healthy ?u" "cache_dir (fs ?u) (loc_of (cwd ?u) dir)"
    "fs_get (fs ?u) (loc_of (cwd ?u) (blob_path dir ?d)) = None"
    using assms(4-6) True by (simp_all add: healthy_def)
  from pull_layer_healthy [OF this(1,2) sv d assms(2,3) this(3)] obtain w1 w2 where
    pull: "pull_blob_to L c r ?d (partial_path dir ?d) ?u = (Inr (), w1)"
      "rename_file (partial_path dir ?d) (blob_path dir ?d) w1 = (Inr (), w2)"
    and into: "cached_into ?l ?u w2"
    and out: "fs_get (fs w2) (loc_of (cwd w) (blob_path dir ?d)) = Some (File b)"
    and others: "\<And>n. n \<noteq> replace_char c_colon c_dash ?d \<Longrightarrow>
      fs_get (fs w2) (?l @ [n @ str ''.blob'']) = fs_get (fs w) (?l @ [n @ str ''.blob''])" by auto
  show thesis
  proof (rule that [of w2])
    show "cached_into ?l w w2" by (rule finto.R_trans [OF tick_into into])
    show "pull_each L c r dir (x # layers) paths w = pull_each L c r dir layers (paths @ [blob_path dir ?d]) w2"
      using pull by (simp add: Let_def io_bind_def [of "path_exists _"] ex)
    fix y assume y: "y \<in> set (x # layers)"
      and none: "fs_get (fs w) (loc_of (cwd w) (blob_path dir (lr_digest y))) = None"
    show "y \<noteq> x \<and> fs_get (fs w2) (loc_of (cwd w) (blob_path dir (lr_digest y))) = None \<or>
      holds B (ext w) r (lr_digest y) (fs_get (fs w2) (loc_of (cwd w) (blob_path dir (lr_digest y))))"
    proof (cases "replace_char c_colon c_dash (lr_digest y) = replace_char c_colon c_dash ?d")
      case True
      from y assms(6) obtain g where "lr_digest y = sha_name L g" by (auto simp: deliverable_def)
      with True d have "lr_digest y = ?d" using blob_name_inj [OF assms(3)] by metis
      with b out show ?thesis by (simp add: holds_def)
    next
      case False
      from y assms(6) have "deliverable L B (ext w) r (lr_digest y)" by blast
      from deliverable_loc [OF this assms(3)] False others none out show ?thesis by auto
    qed
  qed
qed

lemma pull_each_completes:
  assumes "server_reads L c B M" and "sha_incremental L" and "hex_digits L"
    and "healthy w" and "cache_dir (fs w) (loc_of (cwd w) dir)"
    and "\<forall>x \<in> set layers. deliverable L B (ext w) r (lr_digest x)"
  shows "\<exists>w'. pull_each L c r dir layers paths w =
      (Inr (paths @ map (\<lambda>x. blob_path dir (lr_digest x)) layers), w') \<and>
    cached_into (loc_of (cwd w) dir) w w' \<and>
    (\<forall>x \<in> set layers. fs_get (fs w) (loc_of (cwd w) (blob_path dir (lr_digest x))) = None \<longrightarrow>
       holds B (ext w) r (lr_digest x) (fs_get (fs w') (loc_of (cwd w) (blob_path dir (lr_digest x)))))"
  using assms(4-6)
proof (induction layers arbitrary: paths w)
  case Nil
  then show ?case by (simp add: finto.R_refl)
next
  case (Cons x layers)
  let ?d = "lr_digest x" and ?l = "loc_of (cwd w) dir"
  obtain v where v: "cached_into ?l w v" and eq: "pull_each L c r dir (x # layers) paths w =
    pull_each L c r dir layers (paths @ [blob_path dir ?d]) v"
    and fresh: "\<And>y. y \<in> set (x # layers) \<Longrightarrow>
      fs_get (fs w) (loc_of (cwd w) (blob_path dir (lr_digest y))) = None \<Longrightarrow>
      y \<noteq> x \<and> fs_get (fs v) (loc_of (cwd w) (blob_path dir (lr_digest y))) = None \<or>
      holds B (ext w) r (lr_digest y) (fs_get (fs v) (loc_of (cwd w) (blob_path dir (lr_digest y))))"
    using pull_head_completes [OF assms(1-3) Cons.prems, of paths] by blast
  have pv: "healthy v" "cache_dir (fs v) (loc_of (cwd v) dir)" "cwd v = cwd w" "ext v = ext w"
    "\<forall>y \<in> set layers. deliverable L B (ext v) r (lr_digest y)"
    using v Cons.prems by (simp_all add: cached_into_def healthy_def)
  from Cons.IH [OF pv(1,2,5), of "paths @ [blob_path dir ?d]"] obtain w' where
    run: "pull_each L c r dir layers (paths @ [blob_path dir ?d]) v =
      (Inr ((paths @ [blob_path dir ?d]) @ map (\<lambda>x. blob_path dir (lr_digest x)) layers), w')"
    and into: "cached_into ?l v w'"
    and rest: "\<And>y. y \<in> set layers \<Longrightarrow> fs_get (fs v) (loc_of (cwd w) (blob_path dir (lr_digest y))) = None \<Longrightarrow>
      holds B (ext w) r (lr_digest y) (fs_get (fs w') (loc_of (cwd w) (blob_path dir (lr_digest y))))"
    unfolding pv(3,4) by blast
  have keep: "holds B (ext w) r (lr_digest y) (fs_get (fs w') (loc_of (cwd w) (blob_path dir (lr_digest y))))"
    if "y \<in> set (x # layers)"
      "holds B (ext w) r (lr_digest y) (fs_get (fs v) (loc_of (cwd w) (blob_path dir (lr_digest y))))" for y
  proof -
    from that(1) Cons.prems(3) have "deliverable L B (ext w) r (lr_digest y)" by blast
    from deliverable_loc [OF this assms(3)] that(2) into show ?thesis by (auto simp: cached_into_def holds_def)
  qed
  have "holds B (ext w) r (lr_digest y) (fs_get (fs w') (loc_of (cwd w) (blob_path dir (lr_digest y))))"
    if "y \<in> set (x # layers)" "fs_get (fs w) (loc_of (cwd w) (blob_path dir (lr_digest y))) = None" for y
    using fresh [OF that] keep [OF that(1)] rest [of y] that(1) by auto
  moreover have "cached_into ?l w w'" by (rule finto.R_trans [OF v into])
  ultimately show ?case using eq run by auto
qed

lemma collect_body_chunks: "collect_body (map Inr bs) = Inr (concat bs)"
  by (induction bs) simp_all

text \<open>A seed the server can deliver, with the layers in the order of the client, top-down.\<close>

definition available :: "'h oci_libs \<Rightarrow> 'x store \<Rightarrow> 'x store \<Rightarrow> 'x \<Rightarrow> rstr \<Rightarrow> layer_ref list \<Rightarrow> bool" where
  "available L B M x seed ls \<longleftrightarrow>
     (\<exists>r mb m. reference_parse seed = Inr r \<and>
        M x (registry r) (repository r) (reference r) = Some mb \<and>
        manifest_from_slice L mb = Inr m \<and> wm_manifests m = [] \<and> wm_layers m \<noteq> [] \<and>
        ls = map (\<lambda>d. \<lparr>lr_media_type = wd_media_type d, lr_digest = wd_digest d, lr_size = wd_size d\<rparr>)
               (rev (wm_layers m)) \<and>
        (\<forall>y \<in> set ls. deliverable L B x r (lr_digest y)))"

lemma resolve_completes:
  assumes "server_reads L c B M" and "available L B M (ext w) seed ls"
  shows "oci_resolve L c seed w = (Inr ls, w)"
proof -
  from assms(2) obtain r mb m where r: "reference_parse seed = Inr r"
    and mb: "M (ext w) (registry r) (repository r) (reference r) = Some mb"
    and m: "parse_layers L r mb = Inr ls"
    by (auto simp: available_def parse_layers_def)
  from assms(1) mb have "serves c (manifest_get c r) (ext w) mb" by (simp add: server_reads_def)
  then obtain resp bs where "http_send (http c) (manifest_get c r) w = (Inr resp, w)"
    "is_success (hr_status resp)" "hr_chunks resp = map Inr bs" "concat bs = mb"
    by (auto simp: serves_def http_send_def)
  then have "fetch_manifest c r w = (Inr mb, w)"
    by (simp add: fetch_manifest_def Let_def manifest_get_def collect_body_chunks)
  with r m show ?thesis by (simp add: oci_resolve_def)
qed

text \<open>A directory that can serve as a cache, and what pulling into it leaves.\<close>

definition cache_ready :: "'x world \<Rightarrow> path \<Rightarrow> bool" where
  "cache_ready w dir \<longleftrightarrow>
     healthy w \<and> dir \<noteq> [] \<and> dir_free (fs w) (loc_of (cwd w) dir) \<and>
     (\<forall>n. fs_get (fs w) (loc_of (cwd w) dir @ [n]) \<notin> {Some Dir, Some Sock})"

definition grows :: "loc \<Rightarrow> 'x world \<Rightarrow> 'x world \<Rightarrow> bool" where
  "grows l w w' \<longleftrightarrow>
     faults w' = faults w \<and> cwd w' = cwd w \<and> ext w' = ext w \<and>
     (\<forall>k. (\<forall>n. k \<noteq> l @ [n]) \<longrightarrow>
        fs_get (fs w') k = fs_get (fs w) k \<or> fs_get (fs w) k = None \<and> fs_get (fs w') k = Some Dir)"

interpretation fgrow: frame_rel "grows l" for l
proof unfold_locales
  fix u v w :: "'a world"
  show "grows l w w" by (simp add: grows_def)
  assume "grows l u v" and "grows l v w"
  then show "grows l u w" unfolding grows_def by (metis option.discI)
qed

lemma cached_into_grows: "cached_into l w w' \<Longrightarrow> grows l w w'"
  by (simp add: cached_into_def grows_def)

lemma dir_free_grows:
  assumes "grows l w w'" and "dir_free (fs w) t" and "\<not> strict_prefix l t"
  shows "dir_free (fs w') t"
  unfolding dir_free_def
proof
  fix k assume k: "k \<in> set (ancestors t)"
  have "k \<noteq> l @ [n]" for n
    using ancestors_prefix [OF k] assms(3) by (auto simp: strict_prefix_def prefix_def)
  then show "fs_get (fs w') k = None \<or> fs_get (fs w') k = Some Dir"
    using assms(1,2) k unfolding grows_def dir_free_def by metis
qed

lemma make_dir_grows:
  assumes "healthy w" and "p \<noteq> []" and "dir_free (fs w) (loc_of (cwd w) p)"
  obtains w' where "create_dir_all p w = (Inr (), w')" and "fs_get (fs w') (loc_of (cwd w) p) = Some Dir"
    and "grows l w w'"
    and "\<And>k. \<not> prefix k (loc_of (cwd w) p) \<Longrightarrow> fs_get (fs w') k = fs_get (fs w) k"
proof (rule create_dir_all_healthy [OF assms])
  fix w' assume run: "create_dir_all p w = (Inr (), w')"
    and fr: "fs_get (fs w') (loc_of (cwd w) p) = Some Dir"
      "\<And>l. fs_get (fs w') l = fs_get (fs w) l \<or> fs_get (fs w) l = None \<and> fs_get (fs w') l = Some Dir"
      "cwd w' = cwd w" "faults w' = faults w" "ext w' = ext w"
  have "grows l w w'" using fr unfolding grows_def by blast
  moreover have "fs_get (fs w') k = fs_get (fs w) k" if "\<not> prefix k (loc_of (cwd w) p)" for k
    using create_dir_all_get [of w k p] that run by simp
  ultimately show thesis by (rule that [OF run fr(1)])
qed

lemma pull_completes:
  assumes "server_reads L c B M" and "sha_incremental L" and "hex_digits L"
    and "cache_ready w dir" and "available L B M (ext w) seed ls"
  shows "\<exists>w'. oci_pull_layers L c seed dir w = (Inr (map (\<lambda>x. blob_path dir (lr_digest x)) ls), w') \<and>
    grows (loc_of (cwd w) dir) w w' \<and> cache_ready w' dir \<and>
    (\<forall>r. reference_parse seed = Inr r \<longrightarrow>
       (\<forall>x \<in> set ls. fs_get (fs w) (loc_of (cwd w) (blob_path dir (lr_digest x))) = None \<longrightarrow>
          holds B (ext w) r (lr_digest x) (fs_get (fs w') (loc_of (cwd w) (blob_path dir (lr_digest x))))))"
proof -
  let ?l = "loc_of (cwd w) dir"
  from assms(4) have h: "healthy w" "dir \<noteq> []" "dir_free (fs w) ?l"
    and files: "fs_get (fs w) (?l @ [n]) \<notin> {Some Dir, Some Sock}" for n
    by (simp_all add: cache_ready_def)
  from assms(5) obtain r where r: "reference_parse seed = Inr r"
    and del: "\<forall>y \<in> set ls. deliverable L B (ext w) r (lr_digest y)"
    by (auto simp: available_def)
  obtain w1 where mk: "create_dir_all dir w = (Inr (), w1)" "fs_get (fs w1) ?l = Some Dir"
    and g1: "grows ?l w w1"
    and same: "\<And>k. \<not> prefix k ?l \<Longrightarrow> fs_get (fs w1) k = fs_get (fs w) k"
    by (rule make_dir_grows [OF h]) blast
  have w1: "healthy w1" "cwd w1 = cwd w" "ext w1 = ext w" using g1 h(1) by (simp_all add: grows_def healthy_def)
  have cd: "cache_dir (fs w1) (loc_of (cwd w1) dir)"
    using mk(2) files same w1(2) by (simp add: cache_dir_def)
  from pull_each_completes [OF assms(1-3) w1(1) cd del [folded w1(3)], of "[]"] obtain w2 where
    each: "pull_each L c r dir ls [] w1 = (Inr (map (\<lambda>x. blob_path dir (lr_digest x)) ls), w2)"
    and in2: "cached_into (loc_of (cwd w1) dir) w1 w2"
    and new: "\<And>x. x \<in> set ls \<Longrightarrow> fs_get (fs w1) (loc_of (cwd w) (blob_path dir (lr_digest x))) = None \<Longrightarrow>
      holds B (ext w) r (lr_digest x) (fs_get (fs w2) (loc_of (cwd w) (blob_path dir (lr_digest x))))"
    using w1(2,3) by auto
  have "\<not> prefix (loc_of (cwd w) (blob_path dir (lr_digest x))) ?l" if "x \<in> set ls" for x
    using that del deliverable_loc [of L B "ext w" r "lr_digest x", OF _ assms(3)] by simp
  with new same r have "\<forall>r. reference_parse seed = Inr r \<longrightarrow>
    (\<forall>x \<in> set ls. fs_get (fs w) (loc_of (cwd w) (blob_path dir (lr_digest x))) = None \<longrightarrow>
      holds B (ext w) r (lr_digest x) (fs_get (fs w2) (loc_of (cwd w) (blob_path dir (lr_digest x)))))"
    by auto
  moreover have "oci_pull_layers L c seed dir w = (Inr (map (\<lambda>x. blob_path dir (lr_digest x)) ls), w2)"
    using r resolve_completes [OF assms(1,5)] mk(1) each by (simp add: oci_pull_layers_def)
  moreover have g: "grows ?l w w2"
    using fgrow.R_trans [OF g1] cached_into_grows in2 w1(2) by metis
  moreover have "cache_ready w2 dir"
    using dir_free_grows [OF g h(3)] h g in2 cd w1(2)
    by (simp add: cache_ready_def cached_into_def cache_dir_def healthy_def grows_def)
  ultimately show ?thesis by blast
qed

lemma pull_seeds_completes:
  assumes "server_reads L c B M" and "sha_incremental L" and "hex_digits L"
    and "cache_ready w dir" and "\<forall>seed \<in> set sds. \<exists>ls. available L B M (ext w) seed ls"
  shows "\<exists>w' ps. pull_seeds (oci_registry L c) dir sds bs w = (Inr ps, w') \<and>
    grows (loc_of (cwd w) dir) w w'"
  using assms(4,5)
proof (induction sds arbitrary: bs w)
  case Nil
  then show ?case by (simp add: fgrow.R_refl)
next
  case (Cons seed sds)
  from Cons.prems(2) obtain ls where "available L B M (ext w) seed ls" by auto
  from pull_completes [OF assms(1-3) Cons.prems(1) this] obtain w1 where
    pull: "oci_pull_layers L c seed dir w = (Inr (map (\<lambda>x. blob_path dir (lr_digest x)) ls), w1)"
    and g: "grows (loc_of (cwd w) dir) w w1" and r1: "cache_ready w1 dir" by blast
  from g have eq: "ext w1 = ext w" "cwd w1 = cwd w" by (simp_all add: grows_def)
  with Cons.prems(2) have "\<forall>seed \<in> set sds. \<exists>ls. available L B M (ext w1) seed ls" by simp
  from Cons.IH [OF r1 this] pull eq(2) fgrow.R_trans [OF g] show ?case
    by (fastforce simp: io_bind_eq_Inr oci_registry_def)
qed

section \<open>Publishing completes\<close>

lemma publish_runs:
  assumes "server_reads L c B M" and "sha_incremental L" and "hex_digits L"
    and "ns_registry ns = oci_registry L c"
    and "np_volume_id req \<noteq> []" and "np_target_path req \<noteq> []"
    and "pvc_parse (np_volume_context req) = Inr params"
    and "\<forall>seed \<in> set (seeds params). \<exists>ls. available L B M (ext w) seed ls"
    and "cache_ready w (lowers_dir (ns_cfg ns) (np_volume_id req))"
    and "dir_free (fs w) (loc_of (cwd w) (upper_dir (ns_cfg ns) (np_volume_id req)))"
    and "dir_free (fs w) (loc_of (cwd w) (np_target_path req))"
    and "\<not> strict_prefix (loc_of (cwd w) (lowers_dir (ns_cfg ns) (np_volume_id req)))
           (loc_of (cwd w) (np_target_path req))"
    and "\<And>spec v. fst (mnt_mount (ns_mounter ns) spec v) = Inr ()"
  obtains ps w1 w3 w4 w' where
    "pull_seeds (oci_registry L c) (lowers_dir (ns_cfg ns) (np_volume_id req)) (seeds params) [] w = (Inr ps, w1)"
    and "\<And>l. fs_get (fs w1) l \<noteq> None \<Longrightarrow> fs_get (fs w3) l = fs_get (fs w1) l"
    and "mnt_mount (ns_mounter ns) (publish_spec (ns_cfg ns) req params ps) w3 = (Inr (), w4)"
    and "node_publish_volume J ns req w = (Inr (), w')"
proof -
  let ?v = "np_volume_id req" and ?l = "loc_of (cwd w) (lowers_dir (ns_cfg ns) (np_volume_id req))"
  from pull_seeds_completes [OF assms(1-3,9,8), of "[]"] obtain w1 ps where
    pull: "pull_seeds (oci_registry L c) (lowers_dir (ns_cfg ns) ?v) (seeds params) [] w = (Inr ps, w1)"
    and g1: "grows ?l w w1" by blast
  have h1: "healthy w1" "cwd w1 = cwd w"
    using g1 assms(9) by (simp_all add: grows_def healthy_def cache_ready_def)
  have "\<not> strict_prefix ?l (loc_of (cwd w) (upper_dir (ns_cfg ns) ?v))"
    by (auto simp: strict_prefix_def prefix_def)
  from dir_free_grows [OF g1 assms(10) this] obtain w2 where
    up: "create_dir_all (upper_dir (ns_cfg ns) ?v) w1 = (Inr (), w2)" and g2: "grows ?l w1 w2"
    using make_dir_grows [OF h1(1), of "upper_dir (ns_cfg ns) ?v" ?l] h1(2) by auto
  have g: "grows ?l w w2" by (rule fgrow.R_trans [OF g1 g2])
  then have h2: "healthy w2" "cwd w2 = cwd w"
    using assms(9) by (simp_all add: grows_def healthy_def cache_ready_def)
  from dir_free_grows [OF g assms(11,12)] obtain w3 where
    tg: "create_dir_all (np_target_path req) w2 = (Inr (), w3)"
    using create_dir_all_healthy [OF h2(1) assms(6)] h2(2) by metis
  obtain w4 where mt: "mnt_mount (ns_mounter ns) (publish_spec (ns_cfg ns) req params ps) w3 = (Inr (), w4)"
    using assms(13) by (rule fst_eqE)
  have "node_publish_volume J ns req w =
      (Inr (), snd (persist_state J (ns_cfg ns) ?v (np_volume_context req) w4))"
    using assms(5-7) pull up tg mt by (simp add: node_publish_volume_def assms(4))
  moreover have "fs_get (fs w3) l = fs_get (fs w1) l" if "fs_get (fs w1) l \<noteq> None" for l
    using that create_dir_all_get [of w1 l "upper_dir (ns_cfg ns) ?v"] create_dir_all_get [of w2 l "np_target_path req"]
      up tg by simp
  ultimately show thesis using pull mt by (intro that)
qed

text \<open>
  C13. Publishing completes when nothing outside the driver fails: with a healthy file system, a
  server that keeps the protocol and has every seed of the context, parameters that parse, no file in
  the way of the directories of the volume or of the target, and a mount program that succeeds,
  \<open>NodePublishVolume\<close> returns \<open>Ok\<close>, for any number of seeds and layers, whatever part of the
  layers is cached already.
\<close>

theorem publish_completes:
  assumes "server_reads L c B M" and "sha_incremental L" and "hex_digits L"
    and "ns_registry ns = oci_registry L c"
    and "np_volume_id req \<noteq> []" and "np_target_path req \<noteq> []"
    and "pvc_parse (np_volume_context req) = Inr params"
    and "\<forall>seed \<in> set (seeds params). \<exists>ls. available L B M (ext w) seed ls"
    and "cache_ready w (lowers_dir (ns_cfg ns) (np_volume_id req))"
    and "dir_free (fs w) (loc_of (cwd w) (upper_dir (ns_cfg ns) (np_volume_id req)))"
    and "dir_free (fs w) (loc_of (cwd w) (np_target_path req))"
    and "\<not> strict_prefix (loc_of (cwd w) (lowers_dir (ns_cfg ns) (np_volume_id req)))
           (loc_of (cwd w) (np_target_path req))"
    and "\<And>spec v. fst (mnt_mount (ns_mounter ns) spec v) = Inr ()"
  shows "fst (node_publish_volume J ns req w) = Inr ()"
  by (rule publish_runs [OF assms, of J]) simp

text \<open>The one-layer server of the witnesses keeps the protocol for reading.\<close>

definition toy_blobs :: "unit store" where
  "toy_blobs x reg repo d = (if d = str ''sha256:aa'' then Some [7, 8] else None)"

definition toy_manifests :: "unit store" where
  "toy_manifests x reg repo d = Some [7, 8]"

lemma toy_reads: "server_reads toy_libs toy_client toy_blobs toy_manifests"
proof -
  have "serves toy_client q x [7, 8]" for q x
    unfolding serves_def
    by (rule exI [of _ "\<lparr>hr_status = 200, hr_header = (\<lambda>_. None), hr_chunks = [Inr [7], Inr [8]]\<rparr>"],
        rule exI [of _ "[[7], [8]]"]) (simp add: toy_client_def toy_http_def is_success_def)
  then show ?thesis by (auto simp: server_reads_def toy_blobs_def toy_manifests_def split: if_splits)
qed

lemma toy_available:
  "available toy_libs toy_blobs toy_manifests x (str ''r/a'')
     [\<lparr>lr_media_type = LAYER_ZSTD, lr_digest = str ''sha256:aa'', lr_size = 2\<rparr>]"
proof -
  have "reference_parse (str ''r/a'') =
    Inr \<lparr>registry = str ''r'', repository = str ''a'', reference = str ''latest''\<rparr>" by code_simp
  then show ?thesis
    by (auto simp: available_def toy_manifests_def toy_libs_def deliverable_def toy_blobs_def sha_name_def
      lit_simps)
qed

theorem publish_completes_witness:
  "fst (node_publish_volume toy_J toy_node toy_publish (toy_world [])) = Inr ()"
proof (rule publish_completes [OF toy_reads toy_sha toy_hex])
  show "ns_registry toy_node = oci_registry toy_libs toy_client" by (simp add: toy_node_def)
  show "np_volume_id toy_publish \<noteq> []" "np_target_path toy_publish \<noteq> []"
    by (simp_all add: toy_publish_def lit_simps)
  show "pvc_parse (np_volume_context toy_publish) = Inr toy_params"
    by (simp add: toy_publish_def toy_ctx_parse)
  show "\<forall>seed \<in> set (seeds toy_params). \<exists>ls. available toy_libs toy_blobs toy_manifests (ext (toy_world [])) seed ls"
    using toy_available by (auto simp: toy_params_def)
  have free: "dir_free (fs (toy_world [])) l" for l
    by (auto simp: dir_free_def toy_world_def fs_get_def)
  show "dir_free (fs (toy_world [])) l" "dir_free (fs (toy_world [])) l" for l by (rule free)+
  show "cache_ready (toy_world []) (lowers_dir (ns_cfg toy_node) (np_volume_id toy_publish))"
    using free by (auto simp: cache_ready_def healthy_def toy_world_def fs_get_def lowers_dir_def lit_simps)
  have "loc_of (cwd (toy_world [])) (lowers_dir (ns_cfg toy_node) (np_volume_id toy_publish)) =
      [str ''d'', str ''volumes'', str ''v'', str ''lowers'']"
    "loc_of (cwd (toy_world [])) (np_target_path toy_publish) = [str ''t'']" by code_simp+
  then show "\<not> strict_prefix (loc_of (cwd (toy_world [])) (lowers_dir (ns_cfg toy_node) (np_volume_id toy_publish)))
      (loc_of (cwd (toy_world [])) (np_target_path toy_publish))"
    by (simp add: strict_prefix_def prefix_def)
  show "fst (mnt_mount (ns_mounter toy_node) spec v) = Inr ()" for spec v
    by (simp add: toy_node_def rspacefs_mounter_def rsp_mount_def ok_spawn_def io_defs)
qed

section \<open>What is pushed can be pulled\<close>

text \<open>The writing half of the protocol.\<close>

definition post_req :: "'x oci_client \<Rightarrow> rstr \<Rightarrow> rstr \<Rightarrow> http_req" where
  "post_req c reg repo =
     \<lparr>hq_method = POST, hq_url = uploads_url c reg repo, hq_headers = [], hq_body = []\<rparr>"

definition blob_put :: "'x oci_client \<Rightarrow> rstr \<Rightarrow> rstr \<Rightarrow> rstr \<Rightarrow> bytes \<Rightarrow> http_req" where
  "blob_put c reg location d b =
     \<lparr>hq_method = PUT, hq_url = resolve_location c reg location d,
      hq_headers = [(str ''content-type'', str ''application/octet-stream'')], hq_body = b\<rparr>"

definition manifest_put :: "'x oci_client \<Rightarrow> oci_reference \<Rightarrow> bytes \<Rightarrow> http_req" where
  "manifest_put c r b =
     \<lparr>hq_method = PUT, hq_url = manifest_url c r, hq_headers = [(str ''content-type'', MANIFEST)], hq_body = b\<rparr>"

definition server_has_blobs :: "'h oci_libs \<Rightarrow> 'x oci_client \<Rightarrow> 'x store \<Rightarrow> bool" where
  "server_has_blobs L c B \<longleftrightarrow>
     (\<forall>x reg repo h. \<exists>resp. http c (head_req c reg repo (sha_name L h)) x = (Inr resp, x) \<and>
        (is_success (hr_status resp) \<longleftrightarrow> B x reg repo (sha_name L h) \<noteq> None))"

definition server_uploads :: "'h oci_libs \<Rightarrow> 'x oci_client \<Rightarrow> 'x store \<Rightarrow> 'x store \<Rightarrow> bool" where
  "server_uploads L c B M \<longleftrightarrow>
     (\<forall>x reg repo. \<exists>resp location x'. http c (post_req c reg repo) x = (Inr resp, x') \<and>
        hr_status resp = 202 \<and> hr_header resp (str ''location'') = Some location \<and>
        B x' = B x \<and> M x' = M x \<and>
        (\<forall>b. \<exists>resp' x''.
           http c (blob_put c reg location (sha_name L (sha_digest L b)) b) x' = (Inr resp', x'') \<and>
           is_success (hr_status resp') \<and> M x'' = M x' \<and>
           B x'' reg repo = (B x' reg repo)(sha_name L (sha_digest L b) \<mapsto> b)))"

definition server_manifests :: "'h oci_libs \<Rightarrow> 'x oci_client \<Rightarrow> 'x store \<Rightarrow> 'x store \<Rightarrow> bool" where
  "server_manifests L c B M \<longleftrightarrow>
     (\<forall>x r b m. manifest_from_slice L b = Inr m \<and> list_all tag_char (reference r) \<and>
        (\<forall>y \<in> set (wm_layers m). B x (registry r) (repository r) (wd_digest y) \<noteq> None) \<longrightarrow>
        (\<exists>resp x'. http c (manifest_put c r b) x = (Inr resp, x') \<and> is_success (hr_status resp) \<and>
           hr_header resp (str ''docker-content-digest'') \<in> {None, Some (sha_name L (sha_digest L b))} \<and>
           B x' = B x \<and> M x' (registry r) (repository r) (sha_name L (sha_digest L b)) = Some b \<and>
           M x' (registry r) (repository r) (reference r) = Some b))"

text \<open>\<open>serde_json\<close> reads the layers it has written, and the constant of the empty config is its digest.\<close>

definition manifest_codec :: "'h oci_libs \<Rightarrow> out_manifest \<Rightarrow> bool" where
  "manifest_codec L m \<longleftrightarrow>
     (\<exists>b. manifest_to_vec L m = Inr b \<and>
        manifest_from_slice L b =
          Inr \<lparr>wm_layers =
                 map (\<lambda>y. \<lparr>wd_media_type = od_media_type y, wd_digest = od_digest y, wd_size = od_size y\<rparr>)
                   (om_layers m),
               wm_manifests = []\<rparr>)"

definition empty_config_digest :: "'h oci_libs \<Rightarrow> bool" where
  "empty_config_digest L \<longleftrightarrow> EMPTY_CONFIG_DIGEST = sha_name L (sha_digest L EMPTY_CONFIG_BYTES)"

text \<open>A blob is there after it has been pushed; what was there before stays.\<close>

lemma push_blob_completes:
  assumes "server_has_blobs L c B" and "server_uploads L c B M" and d: "d = sha_name L (sha_digest L b)"
  shows "\<exists>w'. push_blob c reg repo d b w = (Inr (), w') \<and> fs_same w w' \<and> M (ext w') = M (ext w) \<and>
    B (ext w') reg repo =
      (if B (ext w) reg repo d = None then (B (ext w) reg repo)(d \<mapsto> b) else B (ext w) reg repo)"
proof -
  from assms(1) obtain resp where hd: "http c (head_req c reg repo d) (ext w) = (Inr resp, ext w)"
    "is_success (hr_status resp) \<longleftrightarrow> B (ext w) reg repo d \<noteq> None"
    unfolding server_has_blobs_def d by blast
  from hd(1) have ex: "blob_exists c reg repo d w = (Inr (is_success (hr_status resp)), w)"
    by (simp add: blob_exists_def head_req_def http_send_def Let_def)
  show ?thesis
  proof (cases "B (ext w) reg repo d = None")
    case False
    with ex hd(2) have "push_blob c reg repo d b w = (Inr (), w)"
      by (simp add: push_blob_def io_bind_def [of "blob_exists _ _ _ _"])
    with False show ?thesis by (auto simp: fsame.R_refl)
  next
    case True
    from assms(2) obtain resp1 location x1 where
      post: "http c (post_req c reg repo) (ext w) = (Inr resp1, x1)" "hr_status resp1 = 202"
        "hr_header resp1 (str ''location'') = Some location" "B x1 = B (ext w)" "M x1 = M (ext w)"
      and puts: "\<And>b. \<exists>resp' x''.
           http c (blob_put c reg location (sha_name L (sha_digest L b)) b) x1 = (Inr resp', x'') \<and>
           is_success (hr_status resp') \<and> M x'' = M x1 \<and>
           B x'' reg repo = (B x1 reg repo)(sha_name L (sha_digest L b) \<mapsto> b)"
      unfolding server_uploads_def by metis
    from puts [of b] obtain resp2 x2 where
      put: "http c (blob_put c reg location d b) x1 = (Inr resp2, x2)" "is_success (hr_status resp2)"
        "M x2 = M x1" "B x2 reg repo = (B x1 reg repo)(d \<mapsto> b)"
      unfolding d by blast
    have s1: "http_send (http c) (post_req c reg repo) w = (Inr resp1, w\<lparr>ext := x1\<rparr>)"
      using post(1) by (simp add: http_send_def)
    have s2: "http_send (http c) (blob_put c reg location d b) (w\<lparr>ext := x1\<rparr>) = (Inr resp2, w\<lparr>ext := x2\<rparr>)"
      using put(1) by (simp add: http_send_def)
    have "push_blob c reg repo d b w = (Inr (), w\<lparr>ext := x2\<rparr>)"
      using ex hd(2) True post(2,3) put(2) s1 [unfolded post_req_def] s2 [unfolded blob_put_def]
      by (simp add: push_blob_def Let_def io_bind_def [of "blob_exists _ _ _ _"])
    with True post(4,5) put(3,4) show ?thesis by (auto simp: fs_same_def)
  qed
qed

text \<open>
  A revision can be pulled back: on any node, in any later world in which the server still has what it
  had in state \<open>x\<close> for the repository of \<open>r\<close>, pulling the reference \<open>t\<close> into a cache directory that does
  not have the layer yet succeeds with one layer, whose file holds exactly the bytes \<open>b\<close>.
\<close>

definition pulls_back ::
  "'h oci_libs \<Rightarrow> 'x oci_client \<Rightarrow> 'x store \<Rightarrow> 'x store \<Rightarrow> 'x \<Rightarrow> oci_reference \<Rightarrow> rstr \<Rightarrow> bytes \<Rightarrow> bool" where
  "pulls_back L c B M x r t b \<longleftrightarrow>
     (\<forall>u dir.
        cache_ready u dir \<and>
        B x (registry r) (repository r) \<subseteq>\<^sub>m B (ext u) (registry r) (repository r) \<and>
        M x (registry r) (repository r) \<subseteq>\<^sub>m M (ext u) (registry r) (repository r) \<and>
        fs_get (fs u) (loc_of (cwd u) (blob_path dir (sha_name L (sha_digest L b)))) = None \<longrightarrow>
        (\<exists>u'. oci_pull_layers L c t dir u = (Inr [blob_path dir (sha_name L (sha_digest L b))], u') \<and>
           fs_get (fs u') (loc_of (cwd u) (blob_path dir (sha_name L (sha_digest L b)))) = Some (File b)))"

text \<open>The server has a revision under a reference: its manifest lists one layer, which it has.\<close>

definition has_revision ::
  "'h oci_libs \<Rightarrow> 'x store \<Rightarrow> 'x store \<Rightarrow> 'x \<Rightarrow> oci_reference \<Rightarrow> bytes \<Rightarrow> bool" where
  "has_revision L B M x r b \<longleftrightarrow>
     B x (registry r) (repository r) (sha_name L (sha_digest L b)) = Some b \<and>
     (\<exists>mb n. M x (registry r) (repository r) (reference r) = Some mb \<and>
        manifest_from_slice L mb =
          Inr \<lparr>wm_layers = [\<lparr>wd_media_type = LAYER_ZSTD, wd_digest = sha_name L (sha_digest L b), wd_size = n\<rparr>],
               wm_manifests = []\<rparr>)"

lemma has_revision_available:
  assumes "has_revision L B M x r b" and "reference_parse t = Inr r"
  obtains n where "available L B M x t [\<lparr>lr_media_type = LAYER_ZSTD, lr_digest = sha_name L (sha_digest L b), lr_size = n\<rparr>]"
  using assms by (auto simp: has_revision_def available_def deliverable_def)

lemma has_revision_later:
  assumes "has_revision L B M x r b"
    and "B x (registry r) (repository r) \<subseteq>\<^sub>m B y (registry r) (repository r)"
    and "M x (registry r) (repository r) \<subseteq>\<^sub>m M y (registry r) (repository r)"
  shows "has_revision L B M y r b"
  using assms unfolding has_revision_def by (metis domI map_le_def)

lemma has_revision_pulls_back:
  assumes "server_reads L c B M" and "sha_incremental L" and "hex_digits L"
    and "has_revision L B M x (r\<lparr>reference := g\<rparr>) b" and "reference_parse t = Inr (r\<lparr>reference := g\<rparr>)"
  shows "pulls_back L c B M x r t b"
  unfolding pulls_back_def
proof (intro allI impI, elim conjE)
  let ?d = "sha_name L (sha_digest L b)"
  fix u :: "'b world" and dir
  assume ready: "cache_ready u dir" and new: "fs_get (fs u) (loc_of (cwd u) (blob_path dir ?d)) = None"
    and kept: "B x (registry r) (repository r) \<subseteq>\<^sub>m B (ext u) (registry r) (repository r)"
      "M x (registry r) (repository r) \<subseteq>\<^sub>m M (ext u) (registry r) (repository r)"
  from has_revision_later [OF assms(4), where y = "ext u"] kept
  have rev: "has_revision L B M (ext u) (r\<lparr>reference := g\<rparr>) b" by simp
  obtain n where "available L B M (ext u) t [\<lparr>lr_media_type = LAYER_ZSTD, lr_digest = ?d, lr_size = n\<rparr>]"
    by (rule has_revision_available [OF rev assms(5)])
  from pull_completes [OF assms(1-3) ready this] assms(5) rev new
  show "\<exists>u'. oci_pull_layers L c t dir u = (Inr [blob_path dir ?d], u') \<and>
      fs_get (fs u') (loc_of (cwd u) (blob_path dir ?d)) = Some (File b)"
    by (auto simp: holds_def has_revision_def)
qed

lemma push_completes:
  assumes srv: "server_has_blobs L c B" "server_uploads L c B M" "server_manifests L c B M"
    and libs: "empty_config_digest L" "manifest_codec L (revision_manifest r d n)"
    and "reference_parse t = Inr r" and "healthy w"
    and "fs_get (fs w) (loc_of (cwd w) p) = Some (File b)"
    and d: "d = sha_name L (sha_digest L b)" and n: "n = word_of_nat (length b)"
    and tag: "list_all tag_char (reference r)"
    and old: "B (ext w) (registry r) (repository r) d \<in> {None, Some b}"
  obtains w' mb where "oci_push_revision L c t p d n w =
      (Inr (digest_form (registry r) (repository r) (sha_name L (sha_digest L mb))), w')"
    and "has_revision L B M (ext w') (r\<lparr>reference := sha_name L (sha_digest L mb)\<rparr>) b"
    and "has_revision L B M (ext w') r b"
proof -
  let ?reg = "registry r" and ?repo = "repository r"
  have rd: "read_file p w = (Inr b, w\<lparr>tick := Suc (tick w)\<rparr>)"
    using assms(7,8) by (intro read_file_no_fault) (simp_all add: healthy_def)
  from push_blob_completes [OF srv(1,2) d, of ?reg ?repo "w\<lparr>tick := Suc (tick w)\<rparr>"] old obtain w1 where
    p1: "push_blob c ?reg ?repo d b (w\<lparr>tick := Suc (tick w)\<rparr>) = (Inr (), w1)"
    and b1: "B (ext w1) ?reg ?repo d = Some b" by (auto split: if_splits)
  from push_blob_completes [OF srv(1,2) libs(1) [unfolded empty_config_digest_def], of ?reg ?repo w1] b1 obtain w2 where
    p2: "push_blob c ?reg ?repo EMPTY_CONFIG_DIGEST EMPTY_CONFIG_BYTES w1 = (Inr (), w2)"
    and b2: "B (ext w2) ?reg ?repo d = Some b"
    by (cases "d = EMPTY_CONFIG_DIGEST") (auto split: if_splits)
  from libs(2) [unfolded manifest_codec_def] obtain mb where
    mb: "manifest_to_vec L (revision_manifest r d n) = Inr mb"
    and dec: "manifest_from_slice L mb =
      Inr \<lparr>wm_layers = [\<lparr>wd_media_type = LAYER_ZSTD, wd_digest = d, wd_size = n\<rparr>], wm_manifests = []\<rparr>"
    by (auto simp: revision_manifest_def)
  from srv(3) [unfolded server_manifests_def, rule_format, OF conjI, OF dec conjI, OF tag, of "ext w2"] b2 obtain resp x' where
    put: "http c (manifest_put c r mb) (ext w2) = (Inr resp, x')" "is_success (hr_status resp)"
      "hr_header resp (str ''docker-content-digest'') \<in> {None, Some (sha_name L (sha_digest L mb))}"
      "B x' = B (ext w2)" "M x' ?reg ?repo (sha_name L (sha_digest L mb)) = Some mb"
      "M x' ?reg ?repo (reference r) = Some mb" by auto
  have "http_send (http c) (manifest_put c r mb) w2 = (Inr resp, w2\<lparr>ext := x'\<rparr>)"
    using put(1) by (simp add: http_send_def)
  then have "oci_push_revision L c t p d n w =
      (Inr (digest_form ?reg ?repo (sha_name L (sha_digest L mb))), w2\<lparr>ext := x'\<rparr>)"
    using assms(6) rd n p1 p2 mb put(2,3)
    by (auto simp: oci_push_revision_def Let_def manifest_put_def)
  with dec put(4-6) b2 d show thesis
    by (intro that [of mb "w2\<lparr>ext := x'\<rparr>"]) (auto simp: has_revision_def)
qed

text \<open>
  C12. What is pushed can be pulled back, byte for byte: with a server that keeps the protocol and a
  healthy file system, pushing a staging file under the digest and size of its bytes succeeds, and on
  any node, in any later world in which the server still has what it had after the push, pulling the
  returned reference, or the tag it was pushed under, into a cache directory succeeds with one layer,
  whose file holds exactly the bytes of the staging file. (The server must not hold different bytes
  under that digest, and the cache must not have the layer already; the revision is pushed under a tag.)
\<close>

theorem pushed_revision_is_pulled:
  fixes L :: "'h oci_libs"
  assumes srv: "server_reads L c B M" "server_has_blobs L c B" "server_uploads L c B M" "server_manifests L c B M"
    and libs: "sha_incremental L" "hex_digits L" "empty_config_digest L"
      "manifest_codec L (revision_manifest r d (word_of_nat (length b)))"
    and "reference_parse t = Inr r" and "healthy w"
    and "fs_get (fs w) (loc_of (cwd w) p) = Some (File b)"
    and d: "d = sha_name L (sha_digest L b)" and "list_all tag_char (reference r)"
    and "B (ext w) (registry r) (repository r) d \<in> {None, Some b}"
  shows "\<exists>rf w'. oci_push_revision L c t p d (word_of_nat (length b)) w = (Inr rf, w') \<and>
    pulls_back L c B M (ext w') r rf b \<and> pulls_back L c B M (ext w') r t b"
proof (rule push_completes [OF srv(2-4) libs(3,4) assms(9-11) d refl assms(13,14)])
  fix w' mb
  let ?g = "sha_name L (sha_digest L mb)"
  let ?rf = "digest_form (registry r) (repository r) ?g"
  assume run: "oci_push_revision L c t p d (word_of_nat (length b)) w = (Inr ?rf, w')"
    and rev: "has_revision L B M (ext w') (r\<lparr>reference := ?g\<rparr>) b" "has_revision L B M (ext w') r b"
  have "reference_parse ?rf = Inr (r\<lparr>reference := ?g\<rparr>)"
    using canonical_parses [OF assms(9)] sha_name_plain(2) [OF libs(2)] by blast
  then have "pulls_back L c B M (ext w') r ?rf b"
    by (rule has_revision_pulls_back [OF srv(1) libs(1,2) rev(1)])
  moreover have "pulls_back L c B M (ext w') r t b"
    using has_revision_pulls_back [OF srv(1) libs(1,2), where r = r and g = "reference r" and t = t] rev(2) assms(9)
    by simp
  ultimately show ?thesis using run by blast
qed

text \<open>A registry in memory: two association lists from digests to bytes.\<close>

definition mem_libs :: "bytes oci_libs" where
  "mem_libs = toy_libs\<lparr>hex_encode := (\<lambda>b.
     if b = EMPTY_CONFIG_BYTES then str ''44136fa355b3678a1146ad16f7e8649e94fb4fc21fe77e8310c060f61caaff8a''
     else map (\<lambda>_. 97) b)\<rparr>"

type_synonym mem = "(rstr \<times> bytes) list \<times> (rstr \<times> bytes) list"

definition mem_reply :: "bytes option \<Rightarrow> http_resp" where
  "mem_reply e =
     (case e of
        Some b \<Rightarrow> \<lparr>hr_status = 200, hr_header = (\<lambda>_. None), hr_chunks = [Inr b]\<rparr>
      | None \<Rightarrow> \<lparr>hr_status = 404, hr_header = (\<lambda>_. None), hr_chunks = []\<rparr>)"

definition mem_http :: "mem http" where
  "mem_http q x =
     (case hq_method q of
        GET \<Rightarrow> (Inr (mem_reply (map_of (if hq_headers q = [] then fst x else snd x) (last_seg (hq_url q)))), x)
      | HEAD \<Rightarrow> (Inr (mem_reply (map_of (fst x) (last_seg (hq_url q)))), x)
      | POST \<Rightarrow> (Inr \<lparr>hr_status = 202, hr_header = (\<lambda>_. Some (str ''/u'')), hr_chunks = []\<rparr>, x)
      | PUT \<Rightarrow>
          (let d = sha_name mem_libs (sha_digest mem_libs (hq_body q))
           in (Inr \<lparr>hr_status = 201, hr_header = (\<lambda>_. None), hr_chunks = []\<rparr>,
               if hq_headers q = [(str ''content-type'', MANIFEST)]
               then (fst x, (d, hq_body q) # (last_seg (hq_url q), hq_body q) # snd x) else ((d, hq_body q) # fst x, snd x))))"

definition mem_client :: "mem oci_client" where
  "mem_client = \<lparr>http = mem_http, scheme = str ''https''\<rparr>"

definition mem_store :: "(mem \<Rightarrow> (rstr \<times> bytes) list) \<Rightarrow> mem store" where
  "mem_store sel x reg repo d = (if c_slash \<in> set d then None else map_of (sel x) d)"

lemma mem_hex: "hex_digits mem_libs"
  by (auto simp: hex_digits_def mem_libs_def lit_simps)

lemma mem_sha: "sha_incremental mem_libs"
  using toy_sha by (simp add: sha_incremental_def mem_libs_def)

lemma mem_empty_config: "empty_config_digest mem_libs"
  by (simp add: empty_config_digest_def EMPTY_CONFIG_DIGEST_def sha_name_def mem_libs_def toy_libs_def lit_simps)

lemma mem_name: "c_slash \<notin> set (sha_name mem_libs h)"
  by (rule sha_name_plain [OF mem_hex])

lemma url_names:
  "c_slash \<notin> set d \<Longrightarrow> last_seg (blob_url c r d) = d"
  "c_slash \<notin> set (reference r) \<Longrightarrow> last_seg (manifest_url c r) = reference r"
proof -
  have "blob_url c r d = (scheme c @ str ''://'' @ registry r @ str ''/v2/'' @ repository r @ str ''/blobs'') @ c_slash # d"
    by (simp add: blob_url_def lit_simps)
  then show "c_slash \<notin> set d \<Longrightarrow> last_seg (blob_url c r d) = d" by (metis last_seg_app)
  have "manifest_url c r =
    (scheme c @ str ''://'' @ registry r @ str ''/v2/'' @ repository r @ str ''/manifests'') @ c_slash # reference r"
    by (simp add: manifest_url_def lit_simps)
  then show "c_slash \<notin> set (reference r) \<Longrightarrow> last_seg (manifest_url c r) = reference r"
    by (metis last_seg_app)
qed

lemma mem_reads: "server_reads mem_libs mem_client (mem_store fst) (mem_store snd)"
proof -
  have sv: "serves mem_client q x b"
    if "hq_method q = GET" "map_of (if hq_headers q = [] then fst x else snd x) (last_seg (hq_url q)) = Some b" for q x b
    unfolding serves_def using that
    by (intro exI [of _ "mem_reply (Some b)"] exI [of _ "[b]"])
      (simp add: mem_client_def mem_http_def mem_reply_def is_success_def)
  show ?thesis unfolding server_reads_def
  proof (intro conjI allI impI)
    fix x d b and r :: oci_reference
    assume "mem_store fst x (registry r) (repository r) d = Some b \<and> d = sha_name mem_libs (sha_digest mem_libs b)"
    then show "serves mem_client (blob_get mem_client r d) x b"
      using mem_name by (intro sv) (auto simp: blob_get_def mem_store_def url_names)
  next
    fix x b and r :: oci_reference assume "mem_store snd x (registry r) (repository r) (reference r) = Some b"
    then show "serves mem_client (manifest_get mem_client r) x b"
      by (intro sv) (auto simp: manifest_get_def mem_store_def url_names split: if_splits)
  qed
qed

lemma mem_writes:
  "server_has_blobs mem_libs mem_client (mem_store fst)"
  "server_uploads mem_libs mem_client (mem_store fst) (mem_store snd)"
  "server_manifests mem_libs mem_client (mem_store fst) (mem_store snd)"
proof -
  show "server_has_blobs mem_libs mem_client (mem_store fst)"
    using mem_name
    by (auto simp: server_has_blobs_def mem_client_def mem_http_def head_req_def url_names mem_store_def
      mem_reply_def is_success_def split: option.split)
  have ct: "MANIFEST \<noteq> str ''application/octet-stream''" by (simp add: MANIFEST_def lit_simps)
  show "server_uploads mem_libs mem_client (mem_store fst) (mem_store snd)"
    unfolding server_uploads_def
  proof (intro allI)
    fix x :: mem and reg repo
    show "\<exists>resp location x'. http mem_client (post_req mem_client reg repo) x = (Inr resp, x') \<and>
        hr_status resp = 202 \<and> hr_header resp (str ''location'') = Some location \<and>
        mem_store fst x' = mem_store fst x \<and> mem_store snd x' = mem_store snd x \<and>
        (\<forall>b. \<exists>resp' x''.
           http mem_client (blob_put mem_client reg location (sha_name mem_libs (sha_digest mem_libs b)) b) x'
             = (Inr resp', x'') \<and>
           is_success (hr_status resp') \<and> mem_store snd x'' = mem_store snd x' \<and>
           mem_store fst x'' reg repo = (mem_store fst x' reg repo)(sha_name mem_libs (sha_digest mem_libs b) \<mapsto> b))"
      by (rule exI [of _ "\<lparr>hr_status = 202, hr_header = (\<lambda>_. Some (str ''/u'')), hr_chunks = []\<rparr>"],
          rule exI [of _ "str ''/u''"], rule exI [of _ x])
        (use mem_name ct in \<open>auto simp: mem_client_def mem_http_def post_req_def blob_put_def Let_def is_success_def
          mem_store_def fun_eq_iff\<close>)
  qed
  have tag: "c_slash \<notin> set t" if "list_all tag_char t" for t
    using that by (auto simp: list_all_iff tag_char_def is_ascii_alphanumeric_def)
  have seg: "last_seg (manifest_url mem_client r) = reference r" if "list_all tag_char (reference r)"
    for r :: oci_reference
    by (rule url_names(2) [OF tag [OF that]])
  show "server_manifests mem_libs mem_client (mem_store fst) (mem_store snd)"
    using mem_name tag seg
    by (auto simp: server_manifests_def mem_client_def mem_http_def manifest_put_def Let_def is_success_def
      mem_store_def fun_eq_iff)
qed

definition mem_world :: "fsys \<Rightarrow> mem \<Rightarrow> mem world" where
  "mem_world f x = \<lparr>fs = f, cwd = [], faults = (\<lambda>_. None), tick = 0, clock = 0, ext = x\<rparr>"

theorem pushed_revision_is_pulled_witness:
  "\<exists>rf w' u'.
     oci_push_revision mem_libs mem_client (str ''r/a:t'') (str ''/s'') (str ''sha256:aa'') 2
       (mem_world [([str ''s''], File [7, 8])] ([], [])) = (Inr rf, w') \<and>
     oci_pull_layers mem_libs mem_client rf (str ''/d'') (mem_world [] (ext w')) =
       (Inr [blob_path (str ''/d'') (str ''sha256:aa'')], u') \<and>
     fs_get (fs u') (loc_of [] (blob_path (str ''/d'') (str ''sha256:aa''))) = Some (File [7, 8])"
proof -
  let ?w = "mem_world [([str ''s''], File [7, 8])] ([], [])"
  let ?r = "\<lparr>registry = str ''r'', repository = str ''a'', reference = str ''t''\<rparr>"
  have r: "reference_parse (str ''r/a:t'') = Inr ?r" by code_simp
  have f: "fs_get (fs ?w) (loc_of (cwd ?w) (str ''/s'')) = Some (File [7, 8])" by code_simp
  have d: "str ''sha256:aa'' = sha_name mem_libs (sha_digest mem_libs [7, 8])"
    by (simp add: sha_name_def mem_libs_def toy_libs_def EMPTY_CONFIG_BYTES_def lit_simps)
  have old: "mem_store fst (ext ?w) (registry ?r) (repository ?r) (str ''sha256:aa'') \<in> {None, Some [7, 8]}"
    by (simp add: mem_store_def mem_world_def)
  have codec: "manifest_codec mem_libs (revision_manifest ?r (str ''sha256:aa'') (word_of_nat (length [7 :: byte, 8])))"
    by (simp add: manifest_codec_def mem_libs_def toy_libs_def revision_manifest_def)
  have tag: "list_all tag_char (reference ?r)" by code_simp
  have healthy: "healthy (mem_world f x)" for f x by (simp add: healthy_def mem_world_def)
  from pushed_revision_is_pulled [OF mem_reads mem_writes mem_sha mem_hex mem_empty_config codec r healthy f d tag old]
  obtain rf w' where push: "oci_push_revision mem_libs mem_client (str ''r/a:t'') (str ''/s'') (str ''sha256:aa'')
      (word_of_nat (length [7 :: byte, 8])) ?w = (Inr rf, w')"
    and pull: "pulls_back mem_libs mem_client (mem_store fst) (mem_store snd) (ext w') ?r rf [7, 8]"
    by blast
  let ?u = "mem_world [] (ext w')"
  have "loc_of [] (str ''/d'') = [str ''d'']" "loc_of [] (blob_path (str ''/d'') (str ''sha256:aa'')) \<noteq> []" by code_simp+
  then have "cache_ready ?u (str ''/d'')" "fs_get (fs ?u) (loc_of (cwd ?u) (blob_path (str ''/d'') (str ''sha256:aa''))) = None"
    using healthy by (auto simp: cache_ready_def mem_world_def dir_free_def fs_get_def lit_simps)
  with pull [unfolded pulls_back_def, rule_format, of ?u "str ''/d''"] push d show ?thesis
    by (auto simp: mem_world_def)
qed

end
