(* ===== verification/Isolation.thy ===== *)
theory Isolation
  imports Lifecycle Delivery
begin

text \<open>
  Which files a call may touch. The relation \<open>files_outside\<close> says that no file outside some directory
  trees is created, changed or removed. Every handler stays inside the directory of its volume and its
  mount target, as long as the registry serves manifests whose digests are names; a manifest digest
  that is an absolute path leads the client out of its cache directory.
\<close>

section \<open>Files outside some trees\<close>

definition inside :: "loc list \<Rightarrow> loc \<Rightarrow> bool" where
  "inside roots l \<longleftrightarrow> list_ex (\<lambda>d. prefix d l) roots"

definition files_outside :: "loc \<Rightarrow> loc list \<Rightarrow> 'x world \<Rightarrow> 'x world \<Rightarrow> bool" where
  "files_outside c roots w w' \<longleftrightarrow>
     (cwd w = c \<longrightarrow> cwd w' = c \<and>
        (\<forall>l b. \<not> inside roots l \<longrightarrow>
           (fs_get (fs w') l = Some (File b) \<longleftrightarrow> fs_get (fs w) l = Some (File b))))"

interpretation fout: frame_rel "files_outside c roots" for c roots
  by unfold_locales (auto simp: files_outside_def)

lemma inside_append [simp]: "inside roots d \<Longrightarrow> inside roots (d @ n)"
  by (auto simp: inside_def list_ex_iff intro: prefix_prefix)

lemma inside_Cons: "inside (d # roots) l \<longleftrightarrow> prefix d l \<or> inside roots l"
  by (simp add: inside_def)

lemma outside_same: "stays fs_same m \<Longrightarrow> stays (files_outside c roots) m"
  by (erule stays_mono) (simp add: fs_same_def files_outside_def)

lemma outside_only:
  assumes "stays (only_at p) m" and "inside roots (loc_of c p)"
  shows "stays (files_outside c roots) m"
  using assms(1)
proof (rule stays_mono)
  fix v w :: "'a world"
  assume "only_at p v w"
  with assms(2) show "files_outside c roots v w" unfolding only_at_def files_outside_def by metis
qed

lemma outside_dirs [simp]:
  "stays (files_outside c roots) (create_dir_all p)" "stays (files_outside c roots) (remove_dir p)"
  by (auto simp: stays_def files_outside_def frame_simps dest: remove_dir_file remove_file_fewer(2))

lemma outside_rename:
  assumes "inside roots (loc_of c a)" and "inside roots (loc_of c b)"
  shows "stays (files_outside c roots) (rename_file a b)"
proof (rule staysI)
  fix w :: "'a world"
  have "fs_get (fs (snd (rename_file a b w))) l = fs_get (fs w) l" if "cwd w = c" "\<not> inside roots l" for l
    using assms that by (intro rename_file_get) auto
  then show "files_outside c roots w (snd (rename_file a b w))"
    by (simp add: files_outside_def frame_simps)
qed

section \<open>The registry client\<close>

text \<open>A digest that is a name, as every digest of the form \<open>algorithm:encoded\<close> is, and a registry
  that serves manifests with such digests only.\<close>

definition digest_name :: "rstr \<Rightarrow> bool" where
  "digest_name d \<longleftrightarrow> d \<noteq> [] \<and> c_slash \<notin> set d"

definition serves_digest_names :: "'h oci_libs \<Rightarrow> 'x oci_client \<Rightarrow> bool" where
  "serves_digest_names L c \<longleftrightarrow>
     (\<forall>seed w layers w'. oci_resolve L c seed w = (Inr layers, w') \<longrightarrow>
        list_all (\<lambda>x. digest_name (lr_digest x)) layers)"

lemma outside_pull_each:
  assumes "inside roots (loc_of cw dir)" and "list_all (\<lambda>x. digest_name (lr_digest x)) layers"
  shows "stays (files_outside cw roots) (pull_each L c r dir layers paths)"
  using assms(2)
proof (induction layers arbitrary: paths)
  case Nil
  then show ?case by (simp add: fout.ok fout.pair)
next
  case (Cons x layers)
  then have d: "c_slash \<notin> set (lr_digest x)" "lr_digest x \<noteq> []" by (simp_all add: digest_name_def)
  have out: "inside roots (loc_of cw (blob_path dir (lr_digest x)))"
    by (simp add: loc_blob_plain [OF d(1)] assms(1))
  have tmp: "inside roots (loc_of cw (partial_path dir (lr_digest x)))"
    by (simp add: loc_partial_plain [OF d] assms(1))
  have "stays (files_outside cw roots) (path_exists p)" for p by (rule outside_same) simp
  moreover have "stays (files_outside cw roots) (pull_blob_to L c r (lr_digest x) (partial_path dir (lr_digest x)))"
    by (rule outside_only [OF _ tmp]) simp
  ultimately show ?case unfolding pull_each.simps Let_def
    using Cons outside_rename [OF tmp out] by (auto intro!: fout.bind)
qed

lemma outside_pull:
  fixes c :: "'x oci_client"
  assumes "serves_digest_names L c" and "inside roots (loc_of cw dir)"
  shows "stays (files_outside cw roots) (oci_pull_layers L c seed dir)"
proof (rule staysI)
  fix w :: "'x world"
  show "files_outside cw roots w (snd (oci_pull_layers L c seed dir w))"
  proof (cases "reference_parse seed")
    case (Inl e)
    then show ?thesis by (simp add: oci_pull_layers_def io_bind_def io_lift_def fout.R_refl)
  next
    case (Inr r)
    obtain x w1 where x: "oci_resolve L c seed w = (x, w1)" by fastforce
    have w1: "files_outside cw roots w w1"
      by (rule staysD' [OF outside_same [OF oci_resolve_same] x])
    show ?thesis
    proof (cases x)
      case (Inl e)
      with Inr x w1 show ?thesis by (simp add: oci_pull_layers_def io_bind_def io_lift_def)
    next
      case (Inr layers)
      with x assms(1) have "list_all (\<lambda>x. digest_name (lr_digest x)) layers"
        by (auto simp: serves_digest_names_def)
      then have "stays (files_outside cw roots) (io_bind (io_map_err Io (create_dir_all dir))
          (\<lambda>_. pull_each L c r dir layers []))"
        by (auto intro!: fout.bind outside_pull_each assms(2))
      from fout.R_trans [OF w1 staysD [OF this, of w1]] Inr x \<open>reference_parse seed = Inr r\<close> show ?thesis
        by (simp add: oci_pull_layers_def io_bind_def [of "io_lift _"] io_bind_def [of "oci_resolve _ _ _"] io_lift_def)
    qed
  qed
qed

section \<open>The handlers\<close>

lemma outside_mono:
  assumes "stays (files_outside c roots) m" and "set roots \<subseteq> set roots'"
  shows "stays (files_outside c roots') m"
  using assms(1)
proof (rule stays_mono)
  fix v w :: "'a world"
  have "inside roots' l" if "inside roots l" for l
    using assms(2) that by (auto simp: inside_def list_ex_iff)
  then show "files_outside c roots v w \<Longrightarrow> files_outside c roots' v w"
    unfolding files_outside_def by blast
qed

lemma outside_seeds:
  assumes "serves_digest_names L c" and "inside roots (loc_of cw dir)"
  shows "stays (files_outside cw roots) (pull_seeds (oci_registry L c) dir sds bs)"
  by (induction sds arbitrary: bs)
    (auto intro!: fout.bind outside_pull [OF assms] simp: oci_registry_def fout.ok fout.pair)

lemma outside_persist:
  assumes "inside roots (loc_of cw (state_path cfg v))"
  shows "stays (files_outside cw roots) (persist_state J cfg v ct)"
proof -
  have "stays (files_outside cw roots) (write_file (state_path cfg v) b)" for b
    by (rule outside_only [OF _ assms]) simp
  then show ?thesis unfolding persist_state_def Let_def
    by (cases "path_parent (state_path cfg v)") (auto intro!: fout.bind simp: fout.ok fout.lift fout.pair)
qed

lemma outside_freeze:
  assumes "inside roots (loc_of cw st)" and "stays (files_outside cw roots) (cap_capture C so st)"
  shows "stays (files_outside cw roots) (freeze_and_push C (oci_registry L c) so st t)"
proof -
  have "stays (files_outside cw roots) (remove_file st)" by (rule outside_only [OF _ assms(1)]) simp
  moreover have "stays (files_outside cw roots) (reg_push_revision (oci_registry L c) t st d n)" for d n
    by (rule outside_same) (simp add: oci_registry_def)
  ultimately show ?thesis using assms(2) unfolding freeze_and_push_def ensure_parent_def
    by (cases "path_parent st") (auto intro!: fout.bind simp: fout.ok fout.pair)
qed

text \<open>
  The directories a call is about, and the assumption on the programs it runs: mounting a volume
  writes files below its directory and below the target only, unmounting below the target, and a
  capture into the staging file of a volume below its directory.
\<close>

fun rpc_scope :: "config \<Rightarrow> loc \<Rightarrow> rpc \<Rightarrow> loc list" where
  "rpc_scope cfg cw (NodePublish p) =
     [loc_of cw (volume_dir cfg (np_volume_id p)), loc_of cw (np_target_path p)]"
| "rpc_scope cfg cw (NodeUnpublish u) =
     [loc_of cw (volume_dir cfg (nu_volume_id u)), loc_of cw (nu_target_path u)]"
| "rpc_scope cfg cw (CreateSnapshot s) = [loc_of cw (volume_dir cfg (cs_source_volume_id s))]"
| "rpc_scope cfg cw _ = []"

definition confined :: "config \<Rightarrow> loc \<Rightarrow> 'x backends \<Rightarrow> bool" where
  "confined cfg cw be \<longleftrightarrow>
     (\<forall>s v. ms_upper s = upper_dir cfg v \<longrightarrow> ms_control_socket s = control_socket cfg v \<longrightarrow>
        stays (files_outside cw [loc_of cw (volume_dir cfg v), loc_of cw (ms_target s)])
          (mnt_mount (be_mounter be) s)) \<and>
     (\<forall>t. stays (files_outside cw [loc_of cw t]) (mnt_unmount (be_mounter be) t)) \<and>
     (\<forall>so v. stays (files_outside cw [loc_of cw (volume_dir cfg v)])
        (cap_capture (be_capturer be) so (capture_staging cfg v)))"

lemma confinedD:
  assumes "confined cfg cw be"
  shows "ms_upper s = upper_dir cfg v \<Longrightarrow> ms_control_socket s = control_socket cfg v \<Longrightarrow>
      stays (files_outside cw [loc_of cw (volume_dir cfg v), loc_of cw (ms_target s)]) (mnt_mount (be_mounter be) s)"
    and "stays (files_outside cw [loc_of cw t]) (mnt_unmount (be_mounter be) t)"
    and "stays (files_outside cw [loc_of cw (volume_dir cfg v)]) (cap_capture (be_capturer be) so (capture_staging cfg v))"
  using assms by (simp_all add: confined_def)

lemma inside_first: "inside (d # ds) (d @ l)"
  by (simp add: inside_def)

lemma outside_publish:
  assumes "serves_digest_names L c" and "ns_registry ns = oci_registry L c" and "ns_cfg ns = cfg"
    and "ns_mounter ns = be_mounter be" and "confined cfg cw be"
  shows "stays (files_outside cw (rpc_scope cfg cw (NodePublish p))) (node_publish_volume J ns p)"
proof -
  let ?S = "rpc_scope cfg cw (NodePublish p)"
  have "stays (files_outside cw ?S) (pull_seeds (oci_registry L c) (lowers_dir cfg (np_volume_id p)) sds bs)" for sds bs
    by (rule outside_seeds [OF assms(1)]) (simp add: inside_first)
  moreover have "stays (files_outside cw ?S) (persist_state J cfg (np_volume_id p) ct)" for ct
    by (rule outside_persist) (simp add: inside_first)
  moreover have "stays (files_outside cw ?S) (mnt_mount (be_mounter be) (publish_spec cfg p params bs))" for params bs
    using confinedD(1) [OF assms(5), of "publish_spec cfg p params bs" "np_volume_id p"]
    by (simp add: publish_spec_def)
  ultimately show ?thesis unfolding node_publish_volume_def assms(2-4)
    by (auto intro!: fout.bind simp: fout.err fout.lift fout.pair simp del: rpc_scope.simps)
qed

lemma outside_unpublish:
  assumes "ns_registry ns = oci_registry L c" and "ns_cfg ns = cfg"
    and "ns_mounter ns = be_mounter be" and "ns_capturer ns = be_capturer be" and "confined cfg cw be"
  shows "stays (files_outside cw (rpc_scope cfg cw (NodeUnpublish u))) (node_unpublish_volume J ns u)"
proof -
  let ?S = "rpc_scope cfg cw (NodeUnpublish u)"
  have cap: "stays (files_outside cw ?S) (cap_capture (be_capturer be) so (capture_staging cfg (nu_volume_id u)))" for so
    by (rule outside_mono [OF confinedD(3) [OF assms(5)]]) simp
  have "stays (files_outside cw ?S) (freeze_and_push (be_capturer be) (oci_registry L c) so
      (capture_staging cfg (nu_volume_id u)) t)" for so t
    by (rule outside_freeze [OF _ cap]) (simp add: inside_first)
  then have "stays (files_outside cw ?S) (freeze_on_unpublish ns (nu_volume_id u) ct params)" for ct params
    unfolding freeze_on_unpublish_def assms
    by (auto intro!: fout.bind simp: fout.lift fout.ok fout.pair simp del: rpc_scope.simps)
  then have "stays (files_outside cw ?S) (capture_if_asked ns (nu_volume_id u) s)" for s
    by (simp add: capture_if_asked_def fout.ok fout.pair split: option.split sum.split)
  moreover have "stays (files_outside cw ?S) (mnt_unmount (be_mounter be) (nu_target_path u))"
    by (rule outside_mono [OF confinedD(2) [OF assms(5)]]) simp
  moreover have "stays (files_outside cw ?S) (remove_file (state_path cfg (nu_volume_id u)))"
    by (rule outside_only [where p = "state_path cfg (nu_volume_id u)"]) (simp_all add: inside_first)
  moreover have "stays (files_outside cw ?S) (load_state J cfg (nu_volume_id u))"
    by (rule outside_same, rule stays_mono [OF load_state_idle]) (simp add: idle_def)
  ultimately show ?thesis unfolding node_unpublish_volume_def assms(2-3)
    by (auto intro!: fout.bind simp: fout.err fout.pair simp del: rpc_scope.simps)
qed

lemma outside_snapshot:
  assumes "ct_registry svc = oci_registry L c" and "ct_cfg svc = cfg" and "ct_capturer svc = be_capturer be"
    and "confined cfg cw be"
  shows "stays (files_outside cw (rpc_scope cfg cw (CreateSnapshot s))) (create_snapshot svc s)"
proof -
  let ?S = "rpc_scope cfg cw (CreateSnapshot s)"
  have "stays (files_outside cw ?S)
      (cap_capture (be_capturer be) so (capture_staging cfg (cs_source_volume_id s)))" for so
    using confinedD(3) [OF assms(4)] by simp
  then have "stays (files_outside cw ?S) (freeze_and_push (be_capturer be) (oci_registry L c) so
      (capture_staging cfg (cs_source_volume_id s)) t)" for so t
    by (rule outside_freeze [rotated]) (simp add: inside_first)
  moreover have "stays (files_outside cw ?S) (path_exists p)" for p by (rule outside_same) simp
  moreover have "stays (files_outside cw ?S) (\<lambda>w. io_ok (g w) w)" for g
    by (simp add: stays_def fout.R_refl)
  ultimately show ?thesis unfolding create_snapshot_def assms(1-3)
    by (auto intro!: fout.bind simp: fout.err fout.lift fout.pair simp del: rpc_scope.simps)
qed

section \<open>Properties\<close>

text \<open>
  C9. Volumes are isolated: a call creates, changes and removes no file outside the directory of its
  volume and its mount target (outside of anything, for the calls that are not about files), whether
  it succeeds or fails, when the registry serves manifests whose digests are names and the programs
  run for a volume keep to its directory and target.
\<close>

theorem volumes_isolated:
  assumes "rpc_step J (make_router r cfg be) w k w'" and "be_registry be = oci_registry L c"
    and "serves_digest_names L c" and "confined cfg (cwd w) be"
    and "\<not> inside (rpc_scope cfg (cwd w) k) l"
  shows "fs_get (fs w') l = Some (File b) \<longleftrightarrow> fs_get (fs w) l = Some (File b)"
proof -
  note rt = make_router_services assms(2)
  have "files_outside (cwd w) (rpc_scope cfg (cwd w) k) w w'"
    using assms(1)
  proof cases
    case (create_volume svc q r')
    then have "stays fs_same (create_volume svc q)"
      using oci.create_volume_same [of svc L c q] by (auto simp: rt split: if_splits)
    from staysD' [OF outside_same [OF this] create_volume(3)] show ?thesis .
  next
    case (create_snapshot svc s r')
    then have "ct_registry svc = oci_registry L c" "ct_cfg svc = cfg" "ct_capturer svc = be_capturer be"
      by (auto simp: rt split: if_splits)
    from staysD' [OF outside_snapshot [OF this assms(4)] create_snapshot(3)] create_snapshot(1) show ?thesis
      by simp
  next
    case (node_publish ns p r')
    then have "ns_registry ns = oci_registry L c" "ns_cfg ns = cfg" "ns_mounter ns = be_mounter be"
      by (auto simp: rt split: if_splits)
    from staysD' [OF outside_publish [OF assms(3) this assms(4)] node_publish(3)] node_publish(1) show ?thesis
      by simp
  next
    case (node_unpublish ns u r')
    then have "ns_registry ns = oci_registry L c" "ns_cfg ns = cfg" "ns_mounter ns = be_mounter be"
      "ns_capturer ns = be_capturer be" by (auto simp: rt split: if_splits)
    from staysD' [OF outside_unpublish [OF this assms(4)] node_unpublish(3)] node_unpublish(1) show ?thesis
      by simp
  qed (auto simp: delete_volume_def delete_snapshot_def fout.R_refl split: if_splits)
  with assms(5) show ?thesis by (simp add: files_outside_def)
qed

lemma toy_digest_names: "serves_digest_names toy_libs toy_client"
proof -
  have "list_all (\<lambda>x. digest_name (lr_digest x)) layers" if "parse_layers toy_libs r body = Inr layers" for r body layers
    using that by (auto simp: parse_layers_def toy_libs_def digest_name_def lit_simps split: if_splits)
  then show ?thesis
    by (auto simp: serves_digest_names_def oci_resolve_def io_bind_eq_Inr)
qed

lemma quiet_confined: "confined cfg cw quiet_backends"
  using outside_same [OF ok_spawn_world(2)]
  by (auto simp: confined_def quiet_backends_def toy_backends_def rspacefs_mounter_def quiet_capturer_def
    stays_def [of _ "rsp_mount _ _ _"] ok_spawn_world(1) fout.R_refl fout.err)

definition shared_fs :: fsys where
  "shared_fs = [([str ''x''], File [9])]"

theorem volumes_isolated_witness:
  "\<exists>w'. node_publish_volume toy_J quiet_node toy_publish (toy_world shared_fs) = (Inr (), w') \<and>
     fs_get (fs w') [str ''x''] = Some (File [9])"
proof -
  have "fst (node_publish_volume toy_J toy_node toy_publish (toy_world shared_fs)) = Inr ()" by code_simp
  then obtain w' where "node_publish_volume toy_J toy_node toy_publish (toy_world shared_fs) = (Inr (), w')"
    by (rule fst_eqE)
  then have run: "node_publish_volume toy_J quiet_node toy_publish (toy_world shared_fs) = (Inr (), w')"
    by (simp add: quiet_node_def publish_any_capturer)
  then have step: "rpc_step toy_J (make_router All toy_cfg quiet_backends) (toy_world shared_fs)
      (NodePublish toy_publish) w'"
    using quiet_router by (auto simp: node_publish_step)
  have reg: "be_registry quiet_backends = oci_registry toy_libs toy_client"
    by (simp add: quiet_backends_def toy_backends_def)
  have "\<not> inside (rpc_scope toy_cfg (cwd (toy_world shared_fs)) (NodePublish toy_publish)) [str ''x'']"
    by code_simp
  from volumes_isolated [OF step reg toy_digest_names quiet_confined this, of "[9]"] run show ?thesis
    by (simp add: toy_world_def shared_fs_def fs_get_def)
qed

text \<open>
  C40. The digest names are needed: when a manifest gives a layer an absolute path as its digest, the
  cache path and the partial path of the layer do not depend on the cache directory, and a file that
  is already there is returned as the layer, unverified and without asking the server for it.
\<close>

theorem hostile_digest_escapes:
  assumes "lr_digest x = c_slash # d" and "faults w (tick w) = None"
    and "fs_get (fs w) (loc_of (cwd w) (replace_char c_colon c_dash (c_slash # d) @ str ''.blob'')) = Some (File b)"
  shows "blob_path dir (lr_digest x) = replace_char c_colon c_dash (c_slash # d) @ str ''.blob'' \<and>
    partial_path dir (lr_digest x) = partial_path dir' (lr_digest x) \<and>
    pull_each L c r dir [x] paths w =
      (Inr (paths @ [replace_char c_colon c_dash (c_slash # d) @ str ''.blob'']), w\<lparr>tick := Suc (tick w)\<rparr>)"
proof -
  have "is_absolute (replace_char c_colon c_dash (c_slash # d) @ str ''.blob'')"
    by (simp add: replace_char_def is_absolute_def)
  then have b: "blob_path dir' (lr_digest x) = replace_char c_colon c_dash (c_slash # d) @ str ''.blob''" for dir'
    by (simp add: blob_path_def assms(1) path_join_def)
  moreover have "pull_each L c r dir [x] paths w =
      (Inr (paths @ [blob_path dir (lr_digest x)]), w\<lparr>tick := Suc (tick w)\<rparr>)"
    using assms(2,3)
    by (simp add: io_bind_def [of "path_exists _"] path_exists_def metadata_def syscall_def Let_def b)
  ultimately show ?thesis by (simp add: partial_path_def)
qed

definition hostile_layer :: layer_ref where
  "hostile_layer = \<lparr>lr_media_type = LAYER_ZSTD, lr_digest = str ''/etc/keys'', lr_size = 2\<rparr>"

definition hostile_ref :: oci_reference where
  "hostile_ref = \<lparr>registry = str ''r'', repository = str ''a'', reference = str ''latest''\<rparr>"

definition hostile_fs :: fsys where
  "hostile_fs = [([str ''etc''], Dir), ([str ''etc'', str ''keys.blob''], File [66])]"

theorem hostile_digest_escapes_witness:
  "\<exists>w'. pull_each toy_libs toy_client hostile_ref (str ''/d/lowers'') [hostile_layer] [] (toy_world hostile_fs) =
     (Inr [str ''/etc/keys.blob''], w')"
proof -
  have lit: "str ''/etc/keys'' = c_slash # str ''etc/keys''" by code_simp
  have dg: "lr_digest hostile_layer = c_slash # str ''etc/keys''" by (simp add: hostile_layer_def lit)
  have nm: "replace_char c_colon c_dash (c_slash # str ''etc/keys'') @ str ''.blob'' = str ''/etc/keys.blob''"
    by code_simp
  have "fs_get (fs (toy_world hostile_fs)) (loc_of (cwd (toy_world hostile_fs)) (str ''/etc/keys.blob'')) =
    Some (File [66])" by code_simp
  moreover have "faults (toy_world hostile_fs) (tick (toy_world hostile_fs)) = None" by (simp add: toy_world_def)
  ultimately show ?thesis
    using hostile_digest_escapes [OF dg, of "toy_world hostile_fs" "[66]" "str ''/d/lowers''" "[]" toy_libs toy_client hostile_ref "[]"]
    by (simp only: nm) blast
qed

text \<open>The directory of another volume is such a place, unless the target lies in it.\<close>

lemma other_volume_outside:
  assumes "plain_name u" and "plain_name v" and "u \<noteq> v"
    and "prefix (loc_of cw (volume_dir cfg u)) l" and "\<not> prefix t l"
  shows "\<not> inside [loc_of cw (volume_dir cfg v), t] l"
  using volume_dirs_apart [OF assms(1-4)] assms(5) by (simp add: inside_def)

end
