(* ===== verification/Restore.thy ===== *)
theory Restore
  imports Lifecycle Delivery
begin

text \<open>
  The round trip of a volume's data through the registry: what is captured from a live volume, at
  unpublish or by a snapshot, is what a later volume gets. The hypotheses are those of the progress
  theorems (a healthy file system, a server that keeps the protocol) and the documented behaviour of
  the mount daemon: a capture writes the blob it describes to the path it is given.
\<close>

section \<open>Freezing completes\<close>

definition captures ::
  "'h oci_libs \<Rightarrow> 'x store \<Rightarrow> 'x store \<Rightarrow> 'x capturer_ops \<Rightarrow> path \<Rightarrow> path \<Rightarrow> 'x \<Rightarrow> bytes \<Rightarrow> bool" where
  "captures L B M C socket out x b \<longleftrightarrow>
     (\<forall>v. healthy v \<and> ext v = x \<and> fs_get (fs v) (butlast (loc_of (cwd v) out)) = Some Dir \<and>
        fs_get (fs v) (loc_of (cwd v) out) \<notin> {Some Dir, Some Sock} \<longrightarrow>
        (\<exists>cap v'. cap_capture C socket out v = (Inr cap, v') \<and> healthy v' \<and> cwd v' = cwd v \<and>
           fs_get (fs v') (loc_of (cwd v) out) = Some (File b) \<and>
           cd_digest cap = sha_name L (sha_digest L b) \<and>
           cd_bytes_compressed cap = word_of_nat (length b) \<and>
           B (ext v') = B x \<and> M (ext v') = M x))"

text \<open>A volume whose directory is there and whose staging path is free for a file.\<close>

definition stageable :: "config \<Rightarrow> rstr \<Rightarrow> 'x world \<Rightarrow> bool" where
  "stageable cfg v w \<longleftrightarrow> healthy w \<and>
     fs_get (fs w) (loc_of (cwd w) (volume_dir cfg v)) = Some Dir \<and>
     fs_get (fs w) (loc_of (cwd w) (capture_staging cfg v)) \<notin> {Some Dir, Some Sock}"

lemma stageable_parent:
  assumes "stageable cfg v w"
  defines "w1 \<equiv> snd (ensure_parent (capture_staging cfg v) w :: (freeze_error + unit) \<times> 'x world)"
  shows "stageable cfg v w1" and "ext w1 = ext w" and "cwd w1 = cwd w"
proof -
  obtain q where q: "path_parent (capture_staging cfg v) = Some q" "\<And>c. loc_of c q = loc_of c (volume_dir cfg v)"
    using path_parent_join [of "str ''capture.tar.zst''" "volume_dir cfg v"] plain_literals(5)
    unfolding capture_staging_def by blast
  have w1: "w1 = snd (create_dir_all q w)" by (simp add: w1_def ensure_parent_def q(1))
  show "ext w1 = ext w" and cwd: "cwd w1 = cwd w" by (simp_all add: w1 frame_simps)
  have "fs_get (fs w1) (loc_of (cwd w) (capture_staging cfg v)) = fs_get (fs w) (loc_of (cwd w) (capture_staging cfg v))"
    unfolding w1 by (rule create_dir_all_get) (simp add: q(2))
  moreover have "fs_get (fs w1) (loc_of (cwd w) (volume_dir cfg v)) = Some Dir"
    using assms(1) unfolding w1 stageable_def by (simp add: create_dir_all_get)
  moreover have "healthy w1" using assms(1) by (simp add: w1 stageable_def healthy_def frame_simps)
  ultimately show "stageable cfg v w1" using assms(1) cwd by (simp add: stageable_def)
qed

lemma freeze_completes:
  fixes w :: "'x world"
  assumes srv: "server_has_blobs L c B" "server_uploads L c B M" "server_manifests L c B M"
    and libs: "empty_config_digest L"
      "manifest_codec L (revision_manifest r (sha_name L (sha_digest L b)) (word_of_nat (length b)))"
    and t: "reference_parse t = Inr r" and tag: "list_all tag_char (reference r)"
    and st: "stageable cfg v w" and cap: "captures L B M C so (capture_staging cfg v) (ext w) b"
    and old: "B (ext w) (registry r) (repository r) (sha_name L (sha_digest L b)) \<in> {None, Some b}"
  obtains w' mb where "freeze_and_push C (oci_registry L c) so (capture_staging cfg v) t w =
      (Inr (digest_form (registry r) (repository r) (sha_name L (sha_digest L mb))), w')"
    and "has_revision L B M (ext w') (r\<lparr>reference := sha_name L (sha_digest L mb)\<rparr>) b"
    and "has_revision L B M (ext w') r b"
proof -
  let ?s = "capture_staging cfg v"
  let ?w1 = "snd (ensure_parent ?s w :: (freeze_error + unit) \<times> 'x world)"
  note w1 = stageable_parent [OF st]
  from cap w1 obtain cd w2 where
    cp: "cap_capture C so ?s ?w1 = (Inr cd, w2)" "healthy w2" "cwd w2 = cwd ?w1"
      "fs_get (fs w2) (loc_of (cwd ?w1) ?s) = Some (File b)"
      "cd_digest cd = sha_name L (sha_digest L b)" "cd_bytes_compressed cd = word_of_nat (length b)"
      "B (ext w2) = B (ext w)" "M (ext w2) = M (ext w)"
    unfolding captures_def stageable_def by (auto simp: butlast_append)
  have f: "fs_get (fs w2) (loc_of (cwd w2) ?s) = Some (File b)" using cp(3,4) by simp
  obtain w3 mb where
    push: "oci_push_revision L c t ?s (sha_name L (sha_digest L b)) (word_of_nat (length b)) w2 =
      (Inr (digest_form (registry r) (repository r) (sha_name L (sha_digest L mb))), w3)"
    and rev: "has_revision L B M (ext w3) (r\<lparr>reference := sha_name L (sha_digest L mb)\<rparr>) b"
      "has_revision L B M (ext w3) r b"
    by (rule push_completes [OF srv libs t cp(2) f refl refl tag, unfolded cp(7), OF old])
  have "freeze_and_push C (oci_registry L c) so ?s t w =
      (Inr (digest_form (registry r) (repository r) (sha_name L (sha_digest L mb))), snd (remove_file ?s w3))"
    unfolding freeze_and_push_def ensure_parent_bind [where 'e = freeze_error]
    by (simp add: cp(1,5,6) push oci_registry_def)
  with rev show thesis by (intro that [of mb "snd (remove_file ?s w3)"]) (simp_all add: frame_simps)
qed

text \<open>The references that pushing returns are possible seeds.\<close>

definition seed_repo :: "oci_reference \<Rightarrow> bool" where
  "seed_repo r \<longleftrightarrow> list_all (\<lambda>c. \<not> is_seed_sep c \<and> \<not> is_whitespace c) (registry r @ repository r)"

lemma canonical_seed_ok:
  assumes "seed_repo r" and "hex_digits L"
  shows "seed_ok (digest_form (registry r) (repository r) (sha_name L h))"
proof -
  let ?P = "\<lambda>c. \<not> is_seed_sep c \<and> \<not> is_whitespace c"
  have "?P c" if "c \<in> set (hex_encode L h)" for c
  proof -
    from that assms(2) have "(48 \<le> c \<and> c \<le> 57) \<or> (97 \<le> c \<and> c \<le> 102)" by (auto simp: hex_digits_def)
    then show ?thesis unfolding is_seed_sep_def is_whitespace_def by linarith
  qed
  then have "list_all ?P (hex_encode L h)" by (simp only: list_all_iff) blast
  moreover have "list_all ?P (str ''sha256:'')" "?P c_slash" "?P c_at"
    by (simp_all add: lit_simps is_seed_sep_def is_whitespace_def)
  moreover have "list_all ?P (registry r)" "list_all ?P (repository r)"
    using assms(1) by (simp_all only: seed_repo_def list_all_append)
  ultimately have all: "list_all ?P (digest_form (registry r) (repository r) (sha_name L h))"
    by (simp only: digest_form_def sha_name_def list_all_append list.pred_inject) simp
  then have "trim (digest_form (registry r) (repository r) (sha_name L h)) =
      digest_form (registry r) (repository r) (sha_name L h)"
    by (intro trim_plain) (simp only: list_all_iff, blast)
  with all show ?thesis by (simp only: seed_ok_def list_all_iff) (simp add: digest_form_def)
qed

lemma snapshot_run:
  assumes "ct_registry svc = R" and "cs_source_volume_id req \<noteq> []" and "cs_name req \<noteq> []"
    and "snapshot_target (ct_cfg svc) (cs_parameters req) (cs_source_volume_id req) (cs_name req) = Inr t"
    and "path_exists (control_socket (ct_cfg svc) (cs_source_volume_id req)) w = (Inr True :: status + bool, w1)"
    and "freeze_and_push (ct_capturer svc) R (control_socket (ct_cfg svc) (cs_source_volume_id req))
        (capture_staging (ct_cfg svc) (cs_source_volume_id req)) t w1 = (Inr i, w')"
  obtains snap where "create_snapshot svc req w = (Inr snap, w')"
    and "snap_snapshot_id snap = i" and "snap_ready_to_use snap"
  using assms by (simp add: create_snapshot_def io_bind_def [of "path_exists _"])

section \<open>Properties\<close>

text \<open>
  C6. A captured volume can be handed on: unpublishing a volume with \<open>captureOnDelete\<close> completes, and
  afterwards pulling \<open>REPO:TAG\<close>, with the capture repository of the volume and its sanitized name as
  the tag, gives on any node one layer with exactly the bytes captured from the live volume, as long as
  the server keeps them. The unmount is assumed to succeed and to leave the registry alone.
\<close>

theorem captured_volume_is_handed_on:
  fixes w :: "'x world"
  assumes srv: "server_reads L c B M" "server_has_blobs L c B" "server_uploads L c B M" "server_manifests L c B M"
    and libs: "sha_incremental L" "hex_digits L" "empty_config_digest L"
      "manifest_codec L (revision_manifest r (sha_name L (sha_digest L b)) (word_of_nat (length b)))"
    and svc: "ns_registry ns = oci_registry L c" "nu_volume_id req \<noteq> []" "nu_target_path req \<noteq> []"
    and state: "fs_get (fs w) (loc_of (cwd w) (state_path (ns_cfg ns) (nu_volume_id req))) = Some (File data)"
      "ctx_from_slice J data = Some ct" "pvc_parse ct = Inr params" "capture_on_delete params"
      "resolved_capture_repo params = Some repo"
    and t: "t = tag_form repo (sanitize_tag (volume_label ct (nu_volume_id req)))" "reference_parse t = Inr r"
      "list_all tag_char (reference r)"
    and st: "stageable (ns_cfg ns) (nu_volume_id req) w"
    and cap: "captures L B M (ns_capturer ns) (control_socket (ns_cfg ns) (nu_volume_id req))
      (capture_staging (ns_cfg ns) (nu_volume_id req)) (ext w) b"
    and old: "B (ext w) (registry r) (repository r) (sha_name L (sha_digest L b)) \<in> {None, Some b}"
    and um: "\<And>v. fst (mnt_unmount (ns_mounter ns) (nu_target_path req) v) = Inr ()"
      "\<And>v. ext (snd (mnt_unmount (ns_mounter ns) (nu_target_path req) v)) = ext v"
  shows "\<exists>w'. node_unpublish_volume J ns req w = (Inr (), w') \<and>
    has_revision L B M (ext w') r b \<and> pulls_back L c B M (ext w') r t b"
proof -
  let ?v = "nu_volume_id req" and ?w1 = "w\<lparr>tick := Suc (tick w)\<rparr>"
  have "read_file (state_path (ns_cfg ns) ?v) w = (Inr data, ?w1)"
    using state(1) st by (intro read_file_no_fault) (simp_all add: stageable_def healthy_def)
  then have ld: "load_state J (ns_cfg ns) ?v w = (Inr (Some ct) :: status + ctx option, ?w1)"
    by (simp add: load_state_def state(2))
  have "stageable (ns_cfg ns) ?v ?w1" using st by (simp add: stageable_def healthy_def)
  moreover have "captures L B M (ns_capturer ns) (control_socket (ns_cfg ns) ?v) (capture_staging (ns_cfg ns) ?v) (ext ?w1) b"
    "B (ext ?w1) (registry r) (repository r) (sha_name L (sha_digest L b)) \<in> {None, Some b}"
    using cap old by simp_all
  ultimately obtain w2 g where
    fr: "freeze_and_push (ns_capturer ns) (oci_registry L c) (control_socket (ns_cfg ns) ?v)
        (capture_staging (ns_cfg ns) ?v) t ?w1 = (Inr g, w2)"
    and rev: "has_revision L B M (ext w2) r b"
    by (rule freeze_completes [OF srv(2-4) libs(3,4) t(2,3)]) blast
  have cp: "capture_if_asked ns ?v (Some ct) ?w1 = (Inr (), w2)"
    using fr by (simp add: capture_if_asked_def state(3-5) freeze_on_unpublish_def svc(1) t(1) [symmetric])
  obtain w3 where u: "mnt_unmount (ns_mounter ns) (nu_target_path req) w2 = (Inr (), w3)"
    using um(1) by (rule fst_eqE)
  have "ext w3 = ext w2" using um(2) [of w2] u by simp
  let ?w4 = "snd (remove_file (state_path (ns_cfg ns) ?v) (snd (remove_dir (nu_target_path req) w3)))"
  have "node_unpublish_volume J ns req w = (Inr (), ?w4)"
    using svc(2,3) cp u by (simp add: node_unpublish_load [OF svc(2,3) ld])
  moreover have "pulls_back L c B M (ext ?w4) r t b"
    using has_revision_pulls_back [OF srv(1) libs(1,2), where r = r and g = "reference r" and t = t] rev t(2)
      \<open>ext w3 = ext w2\<close> by (simp add: frame_simps)
  moreover have "has_revision L B M (ext ?w4) r b"
    using rev \<open>ext w3 = ext w2\<close> by (simp add: frame_simps)
  ultimately show ?thesis by blast
qed

text \<open>A volume with a live daemon that captures two bytes, in front of the registry in memory.\<close>

definition mem_capturer :: "mem capturer_ops" where
  "mem_capturer =
     \<lparr>cap_capture = (\<lambda>socket out w.
        (Inr \<lparr>cd_out_path = out, cd_digest = str ''sha256:aa'', cd_bytes_compressed = 2, cd_entries = 1\<rparr>,
         w\<lparr>fs := fs_put (loc_of (cwd w) out) (File [7, 8]) (fs w)\<rparr>))\<rparr>"

definition mem_node :: "mem node_service" where
  "mem_node =
     \<lparr>ns_cfg = toy_cfg, ns_mounter = rspacefs_mounter ok_spawn (str ''m''),
      ns_registry = oci_registry mem_libs mem_client, ns_capturer = mem_capturer\<rparr>"

definition mem_live :: "mem world" where
  "mem_live = mem_world (([str ''d'', str ''volumes'', str ''v'', str ''control.sock''], Sock) # published_fs) ([], [])"

lemma mem_sha_name: "sha_name mem_libs (sha_digest mem_libs [7, 8]) = str ''sha256:aa''"
  by (simp add: sha_name_def mem_libs_def toy_libs_def EMPTY_CONFIG_BYTES_def lit_simps)

lemma mem_captures:
  "captures mem_libs (mem_store fst) (mem_store snd) mem_capturer so (capture_staging toy_cfg (str ''v'')) x [7, 8]"
proof -
  have "loc_of c (capture_staging toy_cfg (str ''v'')) \<noteq> []" for c by simp
  then show ?thesis
    by (auto simp: captures_def mem_capturer_def mem_sha_name healthy_def)
qed

lemma mem_stageable: "stageable toy_cfg (str ''v'') mem_live"
proof -
  have "fs_get (fs mem_live) (loc_of (cwd mem_live) (volume_dir toy_cfg (str ''v''))) = Some Dir"
    "fs_get (fs mem_live) (loc_of (cwd mem_live) (capture_staging toy_cfg (str ''v''))) = None"
    by code_simp+
  then show ?thesis by (simp add: stageable_def mem_live_def mem_world_def healthy_def)
qed

lemma mem_codec: "manifest_codec mem_libs (revision_manifest r (str ''sha256:aa'') 2)"
  by (simp add: manifest_codec_def mem_libs_def toy_libs_def revision_manifest_def)

text \<open>An empty node can pull the revision.\<close>

lemma mem_fresh:
  assumes "pulls_back mem_libs mem_client (mem_store fst) (mem_store snd) x r t [7, 8]"
  shows "\<exists>u'. oci_pull_layers mem_libs mem_client t (str ''/c'') (mem_world [] x) =
      (Inr [blob_path (str ''/c'') (str ''sha256:aa'')], u') \<and>
    fs_get (fs u') (loc_of [] (blob_path (str ''/c'') (str ''sha256:aa''))) = Some (File [7, 8])"
proof -
  have "loc_of [] (str ''/c'') = [str ''c'']" "loc_of [] (blob_path (str ''/c'') (str ''sha256:aa'')) \<noteq> []"
    by code_simp+
  then have "cache_ready (mem_world [] x) (str ''/c'')"
    "fs_get (fs (mem_world [] x)) (loc_of (cwd (mem_world [] x)) (blob_path (str ''/c'') (str ''sha256:aa''))) = None"
    by (auto simp: cache_ready_def mem_world_def dir_free_def fs_get_def lit_simps healthy_def)
  with assms [unfolded pulls_back_def mem_sha_name, rule_format, of "mem_world [] x" "str ''/c''"] show ?thesis
    by (simp add: mem_world_def)
qed

theorem captured_volume_is_handed_on_witness:
  "\<exists>w' u'. node_unpublish_volume toy_J mem_node toy_unpublish mem_live = (Inr (), w') \<and>
     oci_pull_layers mem_libs mem_client (str ''r/a:v'') (str ''/c'') (mem_world [] (ext w')) =
       (Inr [blob_path (str ''/c'') (str ''sha256:aa'')], u') \<and>
     fs_get (fs u') (loc_of [] (blob_path (str ''/c'') (str ''sha256:aa''))) = Some (File [7, 8])"
proof -
  let ?r = "\<lparr>registry = str ''r'', repository = str ''a'', reference = str ''v''\<rparr>"
  have um: "fst (mnt_unmount (ns_mounter mem_node) (nu_target_path toy_unpublish) v) = Inr ()"
    "ext (snd (mnt_unmount (ns_mounter mem_node) (nu_target_path toy_unpublish) v)) = ext v" for v
    by (auto simp: mem_node_def rspacefs_mounter_def rsp_unmount_def io_bind_def io_or_def run_ok_def ok_spawn_def
      path_exists_def frame_simps split: prod.splits sum.splits dest!: arg_cong [of _ _ snd])
  have facts: "fs_get (fs mem_live) (loc_of (cwd mem_live) (state_path toy_cfg (str ''v''))) = Some (File [1])"
    "capture_on_delete toy_params"
    "resolved_capture_repo toy_params = Some (str ''r/a'')"
    "str ''r/a:v'' = tag_form (str ''r/a'') (sanitize_tag (volume_label toy_ctx (str ''v'')))"
    "reference_parse (str ''r/a:v'') = Inr ?r" "list_all tag_char (reference ?r)"
    "mem_store fst (ext mem_live) (registry ?r) (repository ?r) (str ''sha256:aa'') = None"
    by code_simp+
  have slice: "ctx_from_slice toy_J [1] = Some toy_ctx" "str ''v'' \<noteq> []" "str ''/t'' \<noteq> []"
    by (simp_all add: toy_J_def lit_simps)
  have "\<exists>w'. node_unpublish_volume toy_J mem_node toy_unpublish mem_live = (Inr (), w') \<and>
      has_revision mem_libs (mem_store fst) (mem_store snd) (ext w') ?r [7, 8] \<and>
      pulls_back mem_libs mem_client (mem_store fst) (mem_store snd) (ext w') ?r (str ''r/a:v'') [7, 8]"
    by (rule captured_volume_is_handed_on [OF mem_reads mem_writes mem_sha mem_hex mem_empty_config])
      (use facts slice um mem_stageable mem_captures mem_codec toy_ctx_parse in
        \<open>simp_all add: mem_node_def mem_sha_name\<close>)
  then obtain w' where run: "node_unpublish_volume toy_J mem_node toy_unpublish mem_live = (Inr (), w')"
    and pull: "pulls_back mem_libs mem_client (mem_store fst) (mem_store snd) (ext w') ?r (str ''r/a:v'') [7, 8]"
    by blast
  from mem_fresh [OF pull] run show ?thesis by blast
qed

text \<open>
  C7. A snapshot can be restored: \<open>CreateSnapshot\<close> of a live volume completes with a ready snapshot, and
  afterwards, as long as the server keeps the revision, \<open>CreateVolume\<close> from that snapshot, for a class
  without seeds, succeeds on any controller with a context whose only seed is the snapshot, and pulling
  that seed on any node gives one layer with exactly the bytes captured.
\<close>

theorem snapshot_is_restored:
  fixes w :: "'x world"
  assumes srv: "server_reads L c B M" "server_has_blobs L c B" "server_uploads L c B M" "server_manifests L c B M"
    and libs: "sha_incremental L" "hex_digits L" "empty_config_digest L"
      "manifest_codec L (revision_manifest r (sha_name L (sha_digest L b)) (word_of_nat (length b)))"
    and svc: "ct_registry svc = oci_registry L c" "cs_source_volume_id req \<noteq> []" "cs_name req \<noteq> []"
    and t: "snapshot_target (ct_cfg svc) (cs_parameters req) (cs_source_volume_id req) (cs_name req) = Inr t"
      "reference_parse t = Inr r" "list_all tag_char (reference r)" "seed_repo r"
    and sock: "fs_get (fs w) (loc_of (cwd w) (control_socket (ct_cfg svc) (cs_source_volume_id req))) \<noteq> None"
    and st: "stageable (ct_cfg svc) (cs_source_volume_id req) w"
    and cap: "captures L B M (ct_capturer svc) (control_socket (ct_cfg svc) (cs_source_volume_id req))
      (capture_staging (ct_cfg svc) (cs_source_volume_id req)) (ext w) b"
    and old: "B (ext w) (registry r) (repository r) (sha_name L (sha_digest L b)) \<in> {None, Some b}"
  shows "\<exists>snap w' g. create_snapshot svc req w = (Inr snap, w') \<and> snap_ready_to_use snap \<and>
    reference_parse (snap_snapshot_id snap) = Inr (r\<lparr>reference := g\<rparr>) \<and>
    has_revision L B M (ext w') (r\<lparr>reference := g\<rparr>) b \<and>
    pulls_back L c B M (ext w') r (snap_snapshot_id snap) b \<and>
    (\<forall>svc' q p u. ct_registry svc' = oci_registry L c \<and> cv_name q \<noteq> [] \<and> cv_volume_capabilities q \<noteq> [] \<and>
       cv_volume_content_source q = Some \<lparr>vcs_type = Some (SnapshotSource (snap_snapshot_id snap))\<rparr> \<and>
       pvc_parse (cv_parameters q) = Inr p \<and> seeds p = [] \<and>
       B (ext w') (registry r) (repository r) \<subseteq>\<^sub>m B (ext u) (registry r) (repository r) \<and>
       M (ext w') (registry r) (repository r) \<subseteq>\<^sub>m M (ext u) (registry r) (repository r) \<longrightarrow>
       (\<exists>vol p'. create_volume svc' q u = (Inr vol, u) \<and>
          pvc_parse (vol_volume_context vol) = Inr p' \<and> seeds p' = [snap_snapshot_id snap]))"
proof -
  let ?v = "cs_source_volume_id req" and ?w1 = "w\<lparr>tick := Suc (tick w)\<rparr>"
  have ex: "path_exists (control_socket (ct_cfg svc) ?v) w = (Inr True, ?w1)"
    using st sock by (simp add: stageable_def path_exists_healthy)
  have "stageable (ct_cfg svc) ?v ?w1" using st by (simp add: stageable_def healthy_def)
  moreover have "captures L B M (ct_capturer svc) (control_socket (ct_cfg svc) ?v) (capture_staging (ct_cfg svc) ?v) (ext ?w1) b"
    "B (ext ?w1) (registry r) (repository r) (sha_name L (sha_digest L b)) \<in> {None, Some b}"
    using cap old by simp_all
  ultimately obtain w' mb where
    fr: "freeze_and_push (ct_capturer svc) (oci_registry L c) (control_socket (ct_cfg svc) ?v)
        (capture_staging (ct_cfg svc) ?v) t ?w1 =
        (Inr (digest_form (registry r) (repository r) (sha_name L (sha_digest L mb))), w')"
    and rev: "has_revision L B M (ext w') (r\<lparr>reference := sha_name L (sha_digest L mb)\<rparr>) b"
    by (rule freeze_completes [OF srv(2-4) libs(3,4) t(2,3)]) blast
  let ?g = "sha_name L (sha_digest L mb)"
  let ?id = "digest_form (registry r) (repository r) ?g"
  obtain snap where run: "create_snapshot svc req w = (Inr snap, w')"
    and snap: "snap_snapshot_id snap = ?id" "snap_ready_to_use snap"
    by (rule snapshot_run [OF svc t(1) ex fr])
  have id: "reference_parse ?id = Inr (r\<lparr>reference := ?g\<rparr>)"
    using canonical_parses [OF t(2)] sha_name_plain(2) [OF libs(2)] by blast
  have "\<exists>vol p'. create_volume svc' q u = (Inr vol, u) \<and>
      pvc_parse (vol_volume_context vol) = Inr p' \<and> seeds p' = [?id]"
    if q: "ct_registry svc' = oci_registry L c" "cv_name q \<noteq> []" "cv_volume_capabilities q \<noteq> []"
      "cv_volume_content_source q = Some \<lparr>vcs_type = Some (SnapshotSource ?id)\<rparr>"
      "pvc_parse (cv_parameters q) = Inr p" "seeds p = []"
      and kept: "B (ext w') (registry r) (repository r) \<subseteq>\<^sub>m B (ext u) (registry r) (repository r)"
        "M (ext w') (registry r) (repository r) \<subseteq>\<^sub>m M (ext u) (registry r) (repository r)" for svc' q p u
  proof -
    from has_revision_later [OF rev, where y = "ext u"] kept
    have "has_revision L B M (ext u) (r\<lparr>reference := ?g\<rparr>) b" by simp
    then obtain n where "available L B M (ext u) ?id [\<lparr>lr_media_type = LAYER_ZSTD, lr_digest = sha_name L (sha_digest L b), lr_size = n\<rparr>]"
      by (rule has_revision_available [OF _ id])
    from resolve_completes [OF srv(1) this] obtain vol where cr: "create_volume svc' q u = (Inr vol, u)"
      using q by (auto simp: create_volume_def Let_def add_snapshot_seed_def oci_registry_def)
    have "seed_ok i" if "cv_volume_content_source q = Some \<lparr>vcs_type = Some (SnapshotSource i)\<rparr>" for i
      using that q(4) canonical_seed_ok [OF t(4) libs(2), of "sha_digest L mb"] by auto
    from create_volume_context_parses [OF cr this] q(4-6) show ?thesis using cr
      by (auto simp: add_snapshot_seed_def)
  qed
  moreover have "pulls_back L c B M (ext w') r ?id b"
    by (rule has_revision_pulls_back [OF srv(1) libs(1,2) rev id])
  ultimately show ?thesis using run snap id rev by auto
qed

definition mem_controller :: "mem controller_service" where
  "mem_controller =
     \<lparr>ct_cfg = toy_cfg, ct_registry = oci_registry mem_libs mem_client, ct_capturer = mem_capturer\<rparr>"

theorem snapshot_is_restored_witness:
  "\<exists>snap w' u'. create_snapshot mem_controller toy_snapshot mem_live = (Inr snap, w') \<and>
     snap_ready_to_use snap \<and>
     oci_pull_layers mem_libs mem_client (snap_snapshot_id snap) (str ''/c'') (mem_world [] (ext w')) =
       (Inr [blob_path (str ''/c'') (str ''sha256:aa'')], u') \<and>
     fs_get (fs u') (loc_of [] (blob_path (str ''/c'') (str ''sha256:aa''))) = Some (File [7, 8])"
proof -
  let ?r = "\<lparr>registry = str ''q'', repository = str ''pvcs/v'', reference = str ''s1''\<rparr>"
  have facts: "snapshot_target toy_cfg (cs_parameters toy_snapshot) (cs_source_volume_id toy_snapshot) (cs_name toy_snapshot)
      = Inr (str ''q/pvcs/v:s1'')"
    "reference_parse (str ''q/pvcs/v:s1'') = Inr ?r" "list_all tag_char (reference ?r)"
    "fs_get (fs mem_live) (loc_of (cwd mem_live) (control_socket toy_cfg (cs_source_volume_id toy_snapshot))) \<noteq> None"
    "mem_store fst (ext mem_live) (registry ?r) (repository ?r) (str ''sha256:aa'') = None"
    by code_simp+
  have repo: "seed_repo ?r" by (simp add: seed_repo_def is_seed_sep_def is_whitespace_def lit_simps)
  have req: "cs_source_volume_id toy_snapshot = str ''v''" "cs_name toy_snapshot \<noteq> []" "str ''v'' \<noteq> []"
    by (simp_all add: toy_snapshot_def lit_simps)
  have svc: "ct_registry mem_controller = oci_registry mem_libs mem_client" "ct_cfg mem_controller = toy_cfg"
    "ct_capturer mem_controller = mem_capturer"
    by (simp_all add: mem_controller_def)
  obtain snap w' where run: "create_snapshot mem_controller toy_snapshot mem_live = (Inr snap, w')"
    "snap_ready_to_use snap"
    and pull: "pulls_back mem_libs mem_client (mem_store fst) (mem_store snd) (ext w') ?r (snap_snapshot_id snap) [7, 8]"
    using snapshot_is_restored [OF mem_reads mem_writes mem_sha mem_hex mem_empty_config, where r = ?r and b = "[7, 8]"
        and svc = mem_controller and req = toy_snapshot and t = "str ''q/pvcs/v:s1''" and w = mem_live]
      facts repo req svc mem_stageable mem_captures mem_codec mem_sha_name
    by auto
  from mem_fresh [OF pull] run show ?thesis by blast
qed


definition mem_publish :: node_publish_request where
  "mem_publish =
     \<lparr>np_volume_id = str ''n'', np_target_path = str ''/t'', np_readonly = False,
      np_volume_context = [SEED \<mapsto> str ''r/a:v'']\<rparr>"

definition mem_full :: mem where
  "mem_full = ([(str ''sha256:aa'', [7, 8])], [(str ''v'', [1])])"


end
