(* ===== verification/Spec2Isabelle.thy ===== *)
theory Spec2Isabelle
  imports Process Isolation Restore Concurrent
begin

text \<open>
  Verification of \<open>rspacefs-csi\<close>, a Kubernetes CSI driver for layered copy-on-write volumes.

  \<^bold>\<open>The program.\<close> One binary (\<open>crates/rspacefs-csi\<close>) serves the CSI gRPC calls of the orchestrator on a
  Unix socket, in the role of controller, node, or both. A volume is described by StorageClass
  parameters; its read-only layers (``seeds'') are OCI artifacts of a registry and its writable upper a
  directory of the node.
  \<^item> The controller checks the parameters, resolves the seeds and returns a volume context; it keeps
    no state. For a snapshot it asks the mount daemon of a live volume, over its control socket, to
    write the upper into a staging file, and pushes that file as a revision.
  \<^item> The node pulls the layers, digest-checked, into a cache directory of the volume, makes the
    directories, runs the mount program and saves the context in \<open>publish.json\<close>. At unpublish it reads
    the context back, captures the upper first when the context asks for it, and unmounts.

  \<^bold>\<open>The theories\<close>, in the order of their imports; files are under \<open>src/crates/rspacefs-csi/src\<close>.
  \<^item> \<open>Prelude\<close>: results with effects (\<open>io_bind\<close> is \<open>?\<close> on an awaited call; the world survives an error),
    and the two frame principles all invariants are proved with (\<open>keeps\<close>, the locale \<open>frame_rel\<close>).
  \<^item> \<open>Rust_Str\<close>, \<open>Rust_Path\<close>: what the code uses of \<open>str\<close> and \<open>Path\<close>. A string is the list of its
    code points; offsets and slices are in UTF-8 bytes and a slice off a boundary is a panic (\<open>None\<close>).
  \<^item> \<open>World\<close>: files, working directory, clock, and the rest of the world as an uninterpreted \<open>ext\<close>. Every
    call may fail with any error and may stop half way (\<open>faults\<close>).
  \<^item> \<open>Reference\<close>, \<open>Registry\<close> (\<open>registry.rs\<close>): \<open>Reference::parse\<close>, and \<open>OciClient\<close> with \<open>resolve\<close>,
    \<open>pull_layers\<close>, \<open>push_revision\<close>; locale \<open>registry_contract\<close>, what the services rely on.
  \<^item> \<open>Control\<close> (\<open>control.rs\<close>), \<open>Freeze\<close> (\<open>freeze.rs\<close>): capture over the control socket; capture and push.
  \<^item> \<open>Params\<close> (\<open>params.rs\<close>): StorageClass parameters and the volume context; locale \<open>flag_codec\<close>.
  \<^item> \<open>Mount\<close> (\<open>mount.rs\<close>), \<open>Driver\<close> (\<open>driver.rs\<close>): the argument vector and the mount and unmount
    programs (locale \<open>mounter_contract\<close>); configuration, roles, paths of a volume.
  \<^item> \<open>Csi\<close>: the messages of \<open>proto/csi.proto\<close> the handlers read and write, and \<open>Status\<close>.
  \<^item> \<open>Node\<close> (\<open>node.rs\<close>), \<open>Controller\<close> (\<open>controller.rs\<close>): every handler of the two services.
  \<^item> \<open>Server\<close> (\<open>server.rs\<close>, \<open>main.rs\<close>, \<open>identity.rs\<close>): the identity answers, stale-socket removal,
    services per role, the shutdown future (\<open>shutdown_signal\<close>, one poll at a time), option defaults,
    start and end of the process.
  \<^item> \<open>Lifecycle\<close>: the driver as a transition system (\<open>rpc_step\<close>, \<open>reachable\<close>); the locale
    \<open>call_invariant\<close>, what makes a property of worlds an invariant of all handlers; and the abstract
    view of the node as a map of published volumes.
  \<^item> \<open>File_Tree\<close>: every entry lies in a directory. \<open>Process\<close>: \<open>main\<close> as a whole, with the gRPC server
    as a relation (\<open>serving\<close>) over calls, polls of the shutdown future and the environment.
  \<^item> \<open>Isolation\<close>: which files a call may touch.
  \<^item> \<open>Delivery\<close>: progress on a healthy file system with a conforming registry server: pulling and
    publishing complete, and what is pushed can be pulled.
  \<^item> \<open>Restore\<close>: the way of captured data through the registry into a later volume.
  \<^item> \<open>Concurrent\<close>: the loop of \<open>pull_layers\<close> cut at its \<open>await\<close> points and interleaved.
  \<^item> This theory: properties that span the controller and the node.

  \<^bold>\<open>How the model corresponds to the code.\<close> A Rust struct is a record with its fields, an enum a
  datatype with its variants, a trait (\<open>Registry\<close>, \<open>Mounter\<close>, \<open>Capturer\<close>) a record of operations, and an
  \<open>async fn .. -> Result<A, E>\<close> a function from the world to \<open>E + A\<close> and the world afterwards, with one
  branch per early return. Errors keep their variant and their data; the text of a message is kept
  as data where the code formats it (\<open>status_msg\<close>). Sizes and timestamps are words of their width
  (\<open>u64\<close>, and \<open>i64\<close> and \<open>i32\<close> in the timestamp). Every function is total by recursion on a list, so
  no fuel is used anywhere: the loops of the code run over finite lists (layers, seeds, chunks).

  \<^bold>\<open>Parameters and what is assumed of them.\<close> The HTTP client with the server behind it, the programs
  run, the control socket with the daemon behind it, and the crates \<open>sha2\<close>, \<open>hex\<close>, \<open>serde_json\<close> are
  arguments of the definitions. Most properties assume nothing of them. Where one does, the hypothesis
  is named and documented behaviour of that code: \<open>sha_incremental\<close> (hashing in chunks is hashing the
  whole), \<open>hex_digits\<close> (the alphabet of an encoding), \<open>ctx_codec\<close> (a string map survives JSON),
  \<open>backends_keep\<close>, \<open>outside_keeps\<close> and \<open>state_safe\<close> (the programs run and the other parties do not break
  the invariant, or the publish states, of the driver), \<open>confined\<close> (the programs run for a volume keep
  to its directory and target), \<open>serves_digest_names\<close> (the registry's digests are names),
  \<open>serves_until_signal\<close> (the gRPC server serves calls until the shutdown future
  resolves), and, for progress only, \<open>healthy\<close> (no file-system call fails on its
  own), the OCI distribution protocol (\<open>server_reads\<close>, \<open>server_has_blobs\<close>, \<open>server_uploads\<close>, \<open>server_manifests\<close>)
  and that a capture of the mount daemon writes the blob it describes (\<open>captures\<close>).

  \<^bold>\<open>What is shown.\<close>
  \<^item> Integrity: a file with a \<open>.blob\<close> name always holds bytes of that digest, through every success and
    failure of every call (\<open>pull_layers_cache_integrity\<close>, \<open>caches_sound_in_reachable_worlds\<close>), from
    the start of the process to its end (\<open>process_keeps_invariants\<close>); the mounter is run only on
    verified layers and prepared directories; the file system stays a tree.
  \<^item> Isolation: a call touches no file outside the directory of its volume and its target
    (\<open>volumes_isolated\<close>).
  \<^item> No data loss at the end of a volume: a volume that asks for it is captured and pushed before it is
    unmounted; when that fails, it stays mounted and its state stays; a failed push keeps the capture.
  \<^item> Refinement: publish and unpublish implement the insertion into and the removal from a map of
    published volumes; failed calls leave it unchanged (\<open>publish_refines\<close>, \<open>unpublish_refines\<close>).
  \<^item> Round trips: parameters through the volume context, the publish state through its file, references
    through their written forms; a revision is pushed completely and manifest last.
  \<^item> Composition: what \<open>CreateVolume\<close> returns is what \<open>NodePublishVolume\<close> mounts; the process serves the
    services of its role and ends normally only on a signal (\<open>process_stops_on_signal\<close>).
  \<^item> Progress: with a healthy file system and a conforming server \<open>NodePublishVolume\<close> returns \<open>Ok\<close>
    (\<open>publish_completes\<close>), and a pushed revision is pulled back byte for byte
    (\<open>pushed_revision_is_pulled\<close>), also when it was captured at unpublish or by a snapshot that a
    new volume is made from (\<open>captured_volume_is_handed_on\<close>, \<open>snapshot_is_restored\<close>), and the
    mount program is run on exactly these bytes (\<open>captured_data_is_mounted\<close>).
  \<^item> Concurrency: interleaved pulls refine the sequential code and keep the caches sound as long as
    their partial files differ (\<open>pull_steps_refine\<close>, \<open>concurrent_pulls_sound\<close>), and they end
    (\<open>concurrent_pulls_terminate\<close>).
  \<^item> No panic in the byte-offset code, bounds of tags and timestamps, every error branch of
    \<open>CreateVolume\<close> and of the parameters, the order of the unmount programs.
  \<^item> Behaviour at odds with comments or intent, proved as such: \<open>unpublish_stuck_without_capture_repo\<close>,
    \<open>lost_state_is_silent\<close>, \<open>unmount_unexaminable_target\<close>, \<open>volume_id_escapes\<close>,
    \<open>restored_layers_below_seeds\<close>, \<open>hostile_digest_escapes\<close>, \<open>shared_partial_corrupts_cache\<close>.

  \<^bold>\<open>Not modelled.\<close> Log output; how \<open>clap\<close> finds an option (the defaults are modelled); the gRPC
  transport and the signal handlers (\<open>tonic\<close>, \<open>tokio\<close>), which \<open>serve\<close> takes as parameters; the branch of
  \<open>shutdown_signal\<close> for systems that are not Unix; generated bindings (\<open>crates/csi-proto\<close>); unit tests;
  deployment files. Handlers run one after the other: interleaving is modelled for pulls only (\<open>Concurrent\<close>);
  a file is modelled by its path, not by an open handle, symbolic links are absent, and permissions
  appear only as faults.
\<close>

section \<open>From the controller to the mount\<close>

text \<open>The parameters a volume is provisioned with: those of its class, with the snapshot it is
  restored from as the last seed.\<close>

definition provisioned :: "create_volume_request \<Rightarrow> pvc_params \<Rightarrow> bool" where
  "provisioned creq params \<longleftrightarrow>
     (\<exists>parsed. pvc_parse (cv_parameters creq) = Inr parsed \<and>
        params = add_snapshot_seed (cv_volume_content_source creq) parsed)"

definition snapshot_ok :: "create_volume_request \<Rightarrow> bool" where
  "snapshot_ok creq \<longleftrightarrow>
     (case cv_volume_content_source creq of
        Some s \<Rightarrow> (case vcs_type s of Some (SnapshotSource i) \<Rightarrow> seed_ok i | _ \<Rightarrow> True)
      | None \<Rightarrow> True)"

lemma provisioned_context:
  assumes "create_volume svc creq w = (Inr vol, w')" and "snapshot_ok creq"
    and "dom extra \<inter> insert VOLUME_NAME param_keys = {}"
  obtains params where "provisioned creq params"
    and "pvc_parse (vol_volume_context vol ++ extra) = Inr params"
    and "volume_label (vol_volume_context vol ++ extra) v = cv_name creq"
    and "vol_volume_id vol = cv_name creq"
  using assms(1)
proof (cases rule: create_volume_Inr)
  case (1 parsed params)
  have "params_wf params" unfolding 1(4)
    by (rule add_snapshot_seed_wf [OF pvc_parse_wf [OF 1(3)]])
      (use assms(2) in \<open>auto simp: snapshot_ok_def\<close>)
  moreover have "pvc_parse (vol_volume_context vol ++ extra) = pvc_parse (vol_volume_context vol)"
    using assms(3) by (intro pvc_parse_cong) (auto simp: map_add_def split: option.splits)
  ultimately have "pvc_parse (vol_volume_context vol ++ extra) = Inr params"
    by (simp add: 1(7) context_roundtrip_wf)
  moreover have "extra VOLUME_NAME = None" using assms(3) by auto
  then have "volume_label (vol_volume_context vol ++ extra) v = cv_name creq"
    by (simp add: volume_label_def 1(7) map_add_def)
  ultimately show thesis using 1(3,4,6) that by (auto simp: provisioned_def)
qed

text \<open>The two calls together: the request the mounter is run on.\<close>

lemma provisioned_mount:
  assumes "create_volume svc creq w = (Inr vol, w')" and "snapshot_ok creq"
    and "dom extra \<inter> insert VOLUME_NAME param_keys = {}"
    and "np_volume_id req = vol_volume_id vol" and "np_volume_context req = vol_volume_context vol ++ extra"
    and "node_publish_volume J ns req u = (Inr (), u')" and "ns_registry ns = oci_registry L c"
  obtains params lss v v' where "provisioned creq params"
    and "list_all2 (\<lambda>seed ls. \<exists>x x'. oci_resolve L c seed x = (Inr ls, x')) (seeds params) lss"
    and "volume_label (np_volume_context req) (np_volume_id req) = cv_name creq"
    and "np_volume_id req = cv_name creq"
    and "mnt_mount (ns_mounter ns)
      (publish_spec (ns_cfg ns) req params
        (concat (map (map (\<lambda>x. blob_path (lowers_dir (ns_cfg ns) (cv_name creq)) (lr_digest x))) lss))) v
      = (Inr (), v')"
proof -
  from provisioned_context [OF assms(1-3)] obtain params where prov: "provisioned creq params"
    and parse: "pvc_parse (np_volume_context req) = Inr params"
    and name: "volume_label (np_volume_context req) (np_volume_id req) = cv_name creq"
    and id: "np_volume_id req = cv_name creq"
    by (metis assms(4,5))
  from assms(6) parse obtain blobs u1 v v' where
    pull: "pull_seeds (oci_registry L c) (lowers_dir (ns_cfg ns) (cv_name creq)) (seeds params) [] u
      = (Inr blobs, u1)"
    and mount: "mnt_mount (ns_mounter ns) (publish_spec (ns_cfg ns) req params blobs) v = (Inr (), v')"
    by (auto elim!: node_publish_Inr simp: assms(7) id)
  from pull_seeds_layers [OF pull] mount prov name id show thesis by (auto intro: that)
qed

text \<open>
  C5. What is provisioned is what is mounted: when \<open>CreateVolume\<close> has returned a volume and
  \<open>NodePublishVolume\<close> succeeds with its id and its context, to which the orchestrator may have added
  keys of its own, the mounter has been run on a request that carries the name of the claim, the
  directories of that volume, the owner, lifecycle and access mode of its class (\<open>Ro\<close> for a read-only
  publish) and the cached layers of the provisioned seeds, in order and top-down within a seed.
\<close>

theorem provision_to_mount:
  assumes "create_volume svc creq w = (Inr vol, w')" and "snapshot_ok creq"
    and "dom extra \<inter> insert VOLUME_NAME param_keys = {}"
    and "np_volume_id req = vol_volume_id vol" and "np_volume_context req = vol_volume_context vol ++ extra"
    and "node_publish_volume J ns req u = (Inr (), u')" and "ns_registry ns = oci_registry L c"
  shows "\<exists>params lss v v'. provisioned creq params \<and>
    list_all2 (\<lambda>seed ls. \<exists>x x'. oci_resolve L c seed x = (Inr ls, x')) (seeds params) lss \<and>
    mnt_mount (ns_mounter ns)
      \<lparr>ms_name = cv_name creq, ms_target = np_target_path req,
       ms_upper = upper_dir (ns_cfg ns) (cv_name creq),
       ms_control_socket = control_socket (ns_cfg ns) (cv_name creq),
       ms_access_mode =
         (if np_readonly req then Ro
          else case access_mode params of
                 Some m \<Rightarrow> m | None \<Rightarrow> if seeds params = [] then Empty else Rwo),
       ms_lifecycle = (case lifecycle params of Some l \<Rightarrow> l | None \<Rightarrow> Persistent),
       ms_owner = owner params,
       ms_lower_blobs =
         concat (map (map (\<lambda>x. blob_path (lowers_dir (ns_cfg ns) (cv_name creq)) (lr_digest x))) lss)\<rparr>
      v = (Inr (), v')"
proof (rule provisioned_mount [OF assms])
  fix params lss v v'
  assume m: "provisioned creq params"
    "list_all2 (\<lambda>seed ls. \<exists>x x'. oci_resolve L c seed x = (Inr ls, x')) (seeds params) lss"
    and eqs: "volume_label (np_volume_context req) (np_volume_id req) = cv_name creq"
      "np_volume_id req = cv_name creq"
    and mount: "mnt_mount (ns_mounter ns)
      (publish_spec (ns_cfg ns) req params
        (concat (map (map (\<lambda>x. blob_path (lowers_dir (ns_cfg ns) (cv_name creq)) (lr_digest x))) lss))) v
      = (Inr (), v')"
  show ?thesis
    using m mount [unfolded publish_spec_def effective_access_mode_def eqs(1), unfolded eqs(2)]
    by (intro exI conjI) assumption+
qed

text \<open>The claim of the witnesses: a class with a seed, restored from a snapshot.\<close>

definition toy_claim :: node_publish_request where
  "toy_claim =
     \<lparr>np_volume_id = str ''pv'', np_target_path = str ''/t'', np_readonly = True,
      np_volume_context =
        [SEED \<mapsto> str ''r/a,r/s'', CAPTURE_ON_DELETE \<mapsto> str ''true'', VOLUME_NAME \<mapsto> str ''pv''] ++
        [str ''csi.storage.k8s.io/pod.name'' \<mapsto> str ''p'']\<rparr>"

lemma toy_claim_runs:
  obtains vol w' u' where "create_volume toy_controller toy_create (toy_world []) = (Inr vol, w')"
    and "np_volume_id toy_claim = vol_volume_id vol"
    and "np_volume_context toy_claim =
      vol_volume_context vol ++ [str ''csi.storage.k8s.io/pod.name'' \<mapsto> str ''p'']"
    and "node_publish_volume toy_J toy_node toy_claim (toy_world []) = (Inr (), u')"
proof -
  obtain vol w' where run: "create_volume toy_controller toy_create (toy_world []) = (Inr vol, w')"
    by (rule toy_create_runs)
  have "vol_volume_id vol = str ''pv''"
    "vol_volume_context vol =
      [SEED \<mapsto> str ''r/a,r/s'', CAPTURE_ON_DELETE \<mapsto> str ''true'', VOLUME_NAME \<mapsto> str ''pv'']"
    using run by (auto elim!: create_volume_Inr simp: toy_create_def toy_ctx_parse toy_params_def
      add_snapshot_seed_def to_volume_context_def insert_opt_def Let_def lit_simps)
  moreover have "fst (node_publish_volume toy_J toy_node toy_claim (toy_world [])) = Inr ()" by code_simp
  then obtain u' where "node_publish_volume toy_J toy_node toy_claim (toy_world []) = (Inr (), u')"
    by (rule fst_eqE)
  ultimately show thesis using run that by (simp add: toy_claim_def)
qed

lemma toy_extra: "dom [str ''csi.storage.k8s.io/pod.name'' \<mapsto> str ''p''] \<inter> insert VOLUME_NAME param_keys = {}"
  by (simp add: param_keys_def key_defs lit_simps)

lemma toy_source: "cv_volume_content_source toy_create = Some \<lparr>vcs_type = Some (SnapshotSource (str ''r/s''))\<rparr>"
  by (simp add: toy_create_def)

lemma toy_snapshot_ok: "snapshot_ok toy_create"
  by (simp add: snapshot_ok_def toy_source toy_seed_ok)

lemma toy_node_registry: "ns_registry toy_node = oci_registry toy_libs toy_client"
  by (simp add: toy_node_def)

theorem provision_to_mount_witness:
  "\<exists>params spec v v'. provisioned toy_create params \<and>
     mnt_mount (ns_mounter toy_node) spec v = (Inr (), v') \<and>
     ms_name spec = str ''pv'' \<and> ms_access_mode spec = Ro \<and> ms_upper spec = upper_dir toy_cfg (str ''pv'')"
proof -
  obtain vol w' u' where run: "create_volume toy_controller toy_create (toy_world []) = (Inr vol, w')"
    and ids: "np_volume_id toy_claim = vol_volume_id vol"
      "np_volume_context toy_claim =
        vol_volume_context vol ++ [str ''csi.storage.k8s.io/pod.name'' \<mapsto> str ''p'']"
    and pub: "node_publish_volume toy_J toy_node toy_claim (toy_world []) = (Inr (), u')"
    by (rule toy_claim_runs)
  from provision_to_mount [OF run toy_snapshot_ok toy_extra ids pub toy_node_registry]
  show ?thesis
    by (elim exE conjE) (intro exI conjI, assumption, assumption,
      simp_all add: toy_create_def toy_claim_def toy_node_def)
qed

text \<open>
  C37. The order of a restored volume: when the class has seeds and the volume is created from a
  snapshot, the layers of the class's seeds come first in the list handed to the mounter, which is
  top-down, and the layers of the snapshot come last. A file of a seed that the snapshot had changed
  is therefore read in the version of the seed.
\<close>

theorem restored_layers_below_seeds:
  assumes "create_volume svc creq w = (Inr vol, w')"
    and "cv_volume_content_source creq = Some \<lparr>vcs_type = Some (SnapshotSource i)\<rparr>" and "seed_ok i"
    and "dom extra \<inter> insert VOLUME_NAME param_keys = {}"
    and "np_volume_id req = vol_volume_id vol" and "np_volume_context req = vol_volume_context vol ++ extra"
    and "node_publish_volume J ns req u = (Inr (), u')" and "ns_registry ns = oci_registry L c"
  shows "\<exists>parsed lss snap spec v v'. pvc_parse (cv_parameters creq) = Inr parsed \<and>
    list_all2 (\<lambda>seed ls. \<exists>x x'. oci_resolve L c seed x = (Inr ls, x')) (seeds parsed) lss \<and>
    (\<exists>x x'. oci_resolve L c i x = (Inr snap, x')) \<and>
    mnt_mount (ns_mounter ns) spec v = (Inr (), v') \<and>
    ms_lower_blobs spec =
      map (\<lambda>x. blob_path (lowers_dir (ns_cfg ns) (cv_name creq)) (lr_digest x)) (concat lss @ snap)"
proof -
  have ok: "snapshot_ok creq" using assms(2,3) by (simp add: snapshot_ok_def)
  obtain params lss v v' where
    prov: "provisioned creq params"
    and lss: "list_all2 (\<lambda>seed ls. \<exists>x x'. oci_resolve L c seed x = (Inr ls, x')) (seeds params) lss"
    and mount: "mnt_mount (ns_mounter ns) (publish_spec (ns_cfg ns) req params
      (concat (map (map (\<lambda>x. blob_path (lowers_dir (ns_cfg ns) (cv_name creq)) (lr_digest x))) lss))) v
      = (Inr (), v')"
    by (rule provisioned_mount [OF assms(1) ok assms(4-8)])
  from prov assms(2) obtain parsed where parsed: "pvc_parse (cv_parameters creq) = Inr parsed"
    and "seeds params = seeds parsed @ [i]"
    by (auto simp: provisioned_def add_snapshot_seed_def)
  with lss obtain lss' snap where split: "lss = lss' @ [snap]"
    and res: "list_all2 (\<lambda>seed ls. \<exists>x x'. oci_resolve L c seed x = (Inr ls, x')) (seeds parsed) lss'"
    "\<exists>x x'. oci_resolve L c i x = (Inr snap, x')"
    by (auto simp: list_all2_append1 list_all2_Cons1)
  have "ms_lower_blobs (publish_spec cfg req params (concat (map (map f) lss))) = map f (concat lss' @ snap)"
    for cfg f
    by (simp add: publish_spec_def map_concat split)
  with parsed mount res show ?thesis by blast
qed

theorem restored_layers_below_seeds_witness:
  "\<exists>lss snap spec v v'.
     mnt_mount (ns_mounter toy_node) spec v = (Inr (), v') \<and>
     list_all2 (\<lambda>seed ls. \<exists>x x'. oci_resolve toy_libs toy_client seed x = (Inr ls, x')) [str ''r/a''] lss \<and>
     ms_lower_blobs spec =
       map (\<lambda>x. blob_path (lowers_dir toy_cfg (str ''pv'')) (lr_digest x)) (concat lss @ snap)"
proof -
  obtain vol w' u' where run: "create_volume toy_controller toy_create (toy_world []) = (Inr vol, w')"
    and ids: "np_volume_id toy_claim = vol_volume_id vol"
      "np_volume_context toy_claim =
        vol_volume_context vol ++ [str ''csi.storage.k8s.io/pod.name'' \<mapsto> str ''p'']"
    and pub: "node_publish_volume toy_J toy_node toy_claim (toy_world []) = (Inr (), u')"
    by (rule toy_claim_runs)
  have "pvc_parse (cv_parameters toy_create) = Inr toy_params" "seeds toy_params = [str ''r/a'']"
    by (simp_all add: toy_create_def toy_ctx_parse toy_params_def)
  with restored_layers_below_seeds [OF run toy_source toy_seed_ok toy_extra ids pub toy_node_registry]
  show ?thesis
    by (elim exE conjE) (intro exI conjI, assumption,
      simp_all add: toy_create_def toy_node_def)
qed

section \<open>From the capture to the next seed\<close>

lemma seed_repository:
  assumes "reference_parse s = Inr r"
    and "c_colon \<notin> set (last_seg (registry r @ c_slash # repository r))"
  shows "drop_tag (seed_base s) = registry r @ c_slash # repository r"
proof -
  let ?R = "registry r @ c_slash # repository r"
  have split: "ref_split s = (?R, reference r)"
    using assms(1)
    by (cases "ref_split s") (auto simp: reference_parse_eq split_once_Some split: option.splits if_splits)
  have plain: "drop_tag ?R = ?R" using assms(2) by (simp add: drop_tag_def last_seg_def)
  show ?thesis
  proof (cases rule: ref_shape [of s])
    case (digest n d)
    with split have "n = ?R" by simp
    with digest plain show ?thesis by (simp add: seed_base_def takeWhile_append)
  next
    case (tagged n t)
    with split have n: "n = ?R" by simp
    from tagged have "seed_base s = s" by (auto simp: seed_base_def takeWhile_eq_all_conv)
    with tagged show ?thesis by (simp add: n drop_tag_def takeWhile_append dropWhile_append)
  next
    case plain
    with split have "s = ?R" by simp
    moreover from plain have "seed_base s = s" by (auto simp: seed_base_def takeWhile_eq_all_conv)
    ultimately show ?thesis using \<open>drop_tag ?R = ?R\<close> by simp
  qed
qed

text \<open>
  A volume captured at its end returns to where it came from: without an explicit
  \<open>captureRepo\<close>, a successful capture at unpublish pushes the revision into the registry and the
  repository of the first seed (however the seed is spelt: by tag, by digest, with a port), under the
  sanitized name of the volume as tag, and the pushed reference names that repository by digest. A
  repository whose last segment itself has a colon is excluded.
\<close>

lemma capture_returns_to_seed_repo:
  assumes "freeze_on_unpublish svc v ctx params w = (Inr (), w')"
    and "ns_registry svc = oci_registry L c"
    and "capture_repo params = None" and "seeds params = seed # sds" and "reference_parse seed = Inr r"
    and "c_colon \<notin> set (last_seg (registry r @ c_slash # repository r))"
  shows "\<exists>target g.
    reference_parse target =
      Inr \<lparr>registry = registry r, repository = repository r,
           reference = sanitize_tag (volume_label ctx v)\<rparr> \<and>
    freeze_and_push (ns_capturer svc) (ns_registry svc) (control_socket (ns_cfg svc) v)
      (capture_staging (ns_cfg svc) v) target w
      = (Inr (digest_form (registry r) (repository r) g), w')"
proof -
  let ?t = "tag_form (registry r @ c_slash # repository r) (sanitize_tag (volume_label ctx v))"
  have repo: "resolved_capture_repo params = Some (registry r @ c_slash # repository r)"
    using resolved_capture_repo_simps(3) [OF assms(3,4)] seed_repository [OF assms(5,6)] by simp
  have parse: "reference_parse ?t = Inr \<lparr>registry = registry r, repository = repository r,
      reference = sanitize_tag (volume_label ctx v)\<rparr>"
    using reference_parse_Inr(1) [OF assms(5)] by (intro parse_tag_form) simp_all
  from assms(1) repo obtain rf where
    fr: "freeze_and_push (ns_capturer svc) (ns_registry svc) (control_socket (ns_cfg svc) v)
      (capture_staging (ns_cfg svc) v) ?t w = (Inr rf, w')"
    by (auto elim!: freeze_on_unpublish_Inr)
  from freeze_reference [OF fr [unfolded assms(2)]] parse obtain g where
    "rf = digest_form (registry r) (repository r) g" by auto
  with fr parse show ?thesis by blast
qed

lemma capture_returns_to_seed_repo_instance:
  "\<exists>target g w'.
     reference_parse target =
       Inr \<lparr>registry = str ''r'', repository = str ''a'', reference = str ''v''\<rparr> \<and>
     freeze_and_push file_capturer (oci_registry toy_libs toy_client) (control_socket toy_cfg (str ''v''))
       (capture_staging toy_cfg (str ''v'')) target (toy_world [])
       = (Inr (digest_form (str ''r'') (str ''a'') g), w')"
proof -
  have "fst (freeze_on_unpublish toy_node (str ''v'') toy_ctx toy_params (toy_world [])) = Inr ()" by code_simp
  then obtain w' where run: "freeze_on_unpublish toy_node (str ''v'') toy_ctx toy_params (toy_world []) = (Inr (), w')"
    by (rule fst_eqE)
  have p: "capture_repo toy_params = None" "seeds toy_params = str ''r/a'' # []" by (simp_all add: toy_params_def)
  have r: "reference_parse (str ''r/a'') =
    Inr \<lparr>registry = str ''r'', repository = str ''a'', reference = str ''latest''\<rparr>" by code_simp
  have "sanitize_tag (volume_label toy_ctx (str ''v'')) = str ''v''"
    by (simp add: sanitize_tag_eq volume_label_def toy_ctx_def tag_char_def is_ascii_alphanumeric_def lit_simps
      key_defs)
  with capture_returns_to_seed_repo [OF run toy_node_registry p r] show ?thesis
    by (auto simp: toy_node_def last_seg_def lit_simps)
qed

end
